theory Spec2Isabelle
  imports Complex_Main "HOL-Library.Multiset"
begin

section \<open>Values shared by the training scripts\<close>

text \<open>
  Exceptions of the Python run time and of its libraries that the modelled code can raise.
  \<open>RuntimeError\<close> is what torch raises for a reduction or a reshape of an empty tensor,
  \<open>AttributeError\<close> is a failed attribute lookup, \<open>OSError\<close> a failed \<open>open\<close>,
  \<open>DatabaseError\<close> a failed \<open>cursor.execute\<close>. \<open>TrainingDivergedError\<close> is the name the
  specification gives to a non-finite loss; no script defines or raises it.
\<close>

datatype error = RuntimeError | AttributeError | OSError | DatabaseError | TrainingDivergedError

text \<open>
  A Python float: a finite number, one of the two infinities, or not-a-number. The
  comparisons are those of IEEE 754: every comparison with NaN is false.
\<close>

datatype pyfloat = Fin real | PosInf | NegInf | NaN

fun fl_gt :: "pyfloat \<Rightarrow> pyfloat \<Rightarrow> bool" where
  "fl_gt NaN _ = False"
| "fl_gt _ NaN = False"
| "fl_gt (Fin a) (Fin b) = (a > b)"
| "fl_gt (Fin a) PosInf = False"
| "fl_gt (Fin a) NegInf = True"
| "fl_gt PosInf PosInf = False"
| "fl_gt PosInf _ = True"
| "fl_gt NegInf _ = False"

fun is_finite :: "pyfloat \<Rightarrow> bool" where
  "is_finite (Fin a) = True"
| "is_finite _ = False"

section \<open>Label generator of the direct loader (train_graphsage_direct.py)\<close>

text \<open>
  One row of the node query: \<open>id, x, y, z, degree, avg_incident_edge_length\<close>
  (\<open>row[0]\<close> .. \<open>row[5]\<close>). The degree is a SQL \<open>COUNT\<close>, an integer.
\<close>

record node_row =
  node_id :: int
  pos_x :: real
  pos_y :: real
  pos_z :: real
  degree :: int
  avg_incident_edge_length :: real

text \<open>
  \<^verbatim>\<open>
  node_labels = []
  for row in node_rows:
      degree = row[4]
      if degree == 2:   label = 1
      elif degree >= 4: label = 2
      else:             label = 0
      node_labels.append(label)
  \<close>
  The loop, with the list built so far as accumulator.
\<close>

fun label_loop :: "node_row list \<Rightarrow> int list \<Rightarrow> int list" where
  "label_loop [] node_labels = node_labels"
| "label_loop (row # rows) node_labels =
     (let d = degree row;
          label = (if d = 2 then 1 else if d \<ge> 4 then 2 else 0)
      in label_loop rows (node_labels @ [label]))"

definition generate_node_labels :: "node_row list \<Rightarrow> int list" where
  "generate_node_labels node_rows = label_loop node_rows []"

text \<open>A row with the given degree; the other columns do not matter to the labels.\<close>

definition row_of_degree :: "int \<Rightarrow> node_row" where
  "row_of_degree d = \<lparr>node_id = 0, pos_x = 0, pos_y = 0, pos_z = 0, degree = d,
     avg_incident_edge_length = 1 / 10\<rparr>"

section \<open>Confidence gate (train_graphsage_high_confidence.py)\<close>








section \<open>Edge validation of the flat loaders\<close>

text \<open>
  The edge tensor after \<open>.view(2, -1)\<close>: row 0 holds the sources, row 1 the targets, and
  column \<open>j\<close> is the edge \<open>(fst ei ! j, snd ei ! j)\<close>.
\<close>

type_synonym edge_index = "int list \<times> int list"

text \<open>
  \<open>torch.tensor(data_dict['edge_index'], dtype=torch.long).view(2, -1)\<close> on the values of
  the JSON field in row-major order. torch refuses to reshape an odd number of elements
  into two rows; a tensor without elements becomes a tensor of two empty rows.
\<close>

definition view_2 :: "int list \<Rightarrow> error + edge_index" where
  "view_2 flat =
     (if odd (length flat) then Inl RuntimeError
      else Inr (take (length flat div 2) flat, drop (length flat div 2) flat))"

text \<open>\<open>edge_index.max()\<close> and \<open>edge_index.min()\<close>: both raise on an empty tensor.\<close>

definition tensor_max :: "edge_index \<Rightarrow> error + int" where
  "tensor_max ei = (case fst ei @ snd ei of [] \<Rightarrow> Inl RuntimeError | v # vs \<Rightarrow> Inr (fold max vs v))"

definition tensor_min :: "edge_index \<Rightarrow> error + int" where
  "tensor_min ei = (case fst ei @ snd ei of [] \<Rightarrow> Inl RuntimeError | v # vs \<Rightarrow> Inr (fold min vs v))"

text \<open>
  \<open>(edge_index[0] < num_nodes) & (edge_index[1] < num_nodes) & (edge_index[0] >= 0) &
  (edge_index[1] >= 0)\<close>, one boolean per column.
\<close>

definition valid_edges_mask :: "nat \<Rightarrow> edge_index \<Rightarrow> bool list" where
  "valid_edges_mask num_nodes ei =
     map (\<lambda>(s, t). s < int num_nodes \<and> t < int num_nodes \<and> s \<ge> 0 \<and> t \<ge> 0)
       (zip (fst ei) (snd ei))"

text \<open>\<open>edge_index[:, valid_edges]\<close>: the columns whose mask entry is true.\<close>

definition select_row :: "int list \<Rightarrow> bool list \<Rightarrow> int list" where
  "select_row row msk = map fst (filter snd (zip row msk))"

definition select_columns :: "edge_index \<Rightarrow> bool list \<Rightarrow> edge_index" where
  "select_columns ei msk = (select_row (fst ei) msk, select_row (snd ei) msk)"

text \<open>\<open>valid_edges.sum().item()\<close>.\<close>

definition mask_sum :: "bool list \<Rightarrow> nat" where
  "mask_sum msk = length (filter (\<lambda>b. b) msk)"

text \<open>\<open>torch.clamp(edge_index, lo, hi)\<close>, elementwise \<open>min(max(v, lo), hi)\<close>.\<close>

definition clamp_index :: "int \<Rightarrow> int \<Rightarrow> edge_index \<Rightarrow> edge_index" where
  "clamp_index lo hi ei =
     (map (\<lambda>v. min (max v lo) hi) (fst ei), map (\<lambda>v. min (max v lo) hi) (snd ei))"

text \<open>
  The two numbers of the message
  \<^verbatim>\<open>Filtered to {edge_index.size(1)} valid edges (removed {valid_edges.sum().item() - edge_index.size(1)} invalid edges)\<close>,
  both computed after \<open>edge_index\<close> has been reassigned to the filtered tensor.
\<close>

record filter_report =
  filtered_to :: nat
  removed :: int

text \<open>
  Lines 37 to 56 of train_graphsage_improved.py (the same lines stand in
  train_graphsage_high_confidence.py): the tensor that goes into \<open>Data\<close>, and the message
  printed when the filter ran.
\<close>

definition validate_edge_index :: "nat \<Rightarrow> edge_index \<Rightarrow> error + (edge_index \<times> filter_report option)" where
  "validate_edge_index num_nodes edge_index =
     (case tensor_max edge_index of
        Inl e \<Rightarrow> Inl e
      | Inr max_edge_index \<Rightarrow>
     (case tensor_min edge_index of
        Inl e \<Rightarrow> Inl e
      | Inr min_edge_index \<Rightarrow>
          (if max_edge_index \<ge> int num_nodes \<or> min_edge_index < 0 then
             (let valid_edges = valid_edges_mask num_nodes edge_index;
                  edge_index1 = select_columns edge_index valid_edges;
                  report = \<lparr>filtered_to = length (fst edge_index1),
                            removed = int (mask_sum valid_edges) - int (length (fst edge_index1))\<rparr>
              in Inr (clamp_index 0 (int num_nodes - 1) edge_index1, Some report))
           else Inr (clamp_index 0 (int num_nodes - 1) edge_index, None))))"

text \<open>The edge part of \<open>load_graphsage_data\<close> in train_graphsage_improved.py.\<close>

definition load_edge_index_improved :: "nat \<Rightarrow> int list \<Rightarrow> error + (edge_index \<times> filter_report option)" where
  "load_edge_index_improved num_nodes flat =
     (case view_2 flat of Inl e \<Rightarrow> Inl e | Inr ei \<Rightarrow> validate_edge_index num_nodes ei)"

text \<open>
  The edge part of \<open>load_graphsage_data\<close> in train_graphsage.py: the reshaped tensor goes
  into \<open>Data\<close> as it is.
\<close>

definition load_edge_index_base :: "nat \<Rightarrow> int list \<Rightarrow> error + edge_index" where
  "load_edge_index_base num_nodes flat = view_2 flat"

text \<open>The edges of a tensor as pairs, and the range check of the specification.\<close>

definition edges_of :: "edge_index \<Rightarrow> (int \<times> int) list" where
  "edges_of ei = zip (fst ei) (snd ei)"

definition edge_in_range :: "nat \<Rightarrow> int \<times> int \<Rightarrow> bool" where
  "edge_in_range num_nodes e =
     (0 \<le> fst e \<and> fst e < int num_nodes \<and> 0 \<le> snd e \<and> snd e < int num_nodes)"

section \<open>Partitioner of the direct loader\<close>











section \<open>Training loops\<close>

text \<open>
  The tensor library is outside the model. \<open>train_step\<close> is one pass of
  \<open>zero_grad\<close>, forward, loss, \<open>backward\<close>, (gradient clipping,) \<open>optimizer.step()\<close> on
  the parameters and optimizer state \<open>'m\<close>, returning the new state and the loss;
  \<open>val_accuracy\<close> is the accuracy on the validation mask in evaluation mode;
  \<open>scheduler_step\<close> is \<open>scheduler.step(loss)\<close>.
\<close>

record 'm trainer_ops =
  train_step :: "'m \<Rightarrow> 'm \<times> pyfloat"
  val_accuracy :: "'m \<Rightarrow> pyfloat"
  scheduler_step :: "pyfloat \<Rightarrow> 'm \<Rightarrow> 'm"

text \<open>
  The variables of \<open>train_model\<close>; \<open>optimizer_steps\<close> counts the calls of
  \<open>optimizer.step()\<close>, the effect of one epoch.
\<close>

record 'm train_state =
  model :: 'm
  train_losses :: "pyfloat list"
  val_accuracies :: "pyfloat list"
  optimizer_steps :: nat

text \<open>
  The further variables of \<open>train_model_improved\<close> and \<open>train_model_high_confidence\<close>;
  \<open>stopped_at\<close> is the epoch of the message \<open>Early stopping at epoch ...\<close>.
\<close>

record 'm early_state = "'m train_state" +
  best_val_acc :: pyfloat
  patience_counter :: nat
  stopped_at :: "nat option"

text \<open>
  \<open>train_model\<close> of train_graphsage.py, lines 93 to 123: no check of the loss, no early
  stopping.
\<close>

function train_model_loop :: "'m trainer_ops \<Rightarrow> nat \<Rightarrow> nat \<Rightarrow> 'm train_state \<Rightarrow> 'm train_state" where
  "train_model_loop ops epochs epoch st =
     (if epoch < epochs then
        (let m1 = fst (train_step ops (model st));
             loss = snd (train_step ops (model st));
             st1 = st\<lparr>model := m1, optimizer_steps := Suc (optimizer_steps st)\<rparr>
         in if epoch mod 10 = 0 then
              train_model_loop ops epochs (Suc epoch)
                (st1\<lparr>train_losses := train_losses st1 @ [loss],
                     val_accuracies := val_accuracies st1 @ [val_accuracy ops m1]\<rparr>)
            else train_model_loop ops epochs (Suc epoch) st1)
      else st)"
  by pat_completeness auto
termination
  by (relation "measure (\<lambda>(ops, epochs, epoch, st). epochs - epoch)") auto

declare train_model_loop.simps [simp del]

text \<open>
  The loop of \<open>train_model_improved\<close> (validation every \<open>K = 10\<close> epochs, patience
  \<open>P = 50\<close>, with the scheduler) and of \<open>train_model_high_confidence\<close> (\<open>K = 15\<close>,
  \<open>P = 40\<close>, no scheduler); the two differ in nothing else.
\<close>

function early_stop_loop ::
  "nat \<Rightarrow> nat \<Rightarrow> bool \<Rightarrow> 'm trainer_ops \<Rightarrow> nat \<Rightarrow> nat \<Rightarrow> 'm early_state \<Rightarrow> 'm early_state" where
  "early_stop_loop K P sched ops epochs epoch st =
     (if epoch < epochs then
        (let m1 = fst (train_step ops (model st));
             loss = snd (train_step ops (model st));
             st1 = st\<lparr>model := m1, optimizer_steps := Suc (optimizer_steps st)\<rparr>
         in if epoch mod K = 0 then
              (let val_acc = val_accuracy ops m1;
                   st2 = st1\<lparr>train_losses := train_losses st1 @ [loss],
                             val_accuracies := val_accuracies st1 @ [val_acc],
                             model := (if sched then scheduler_step ops loss m1 else m1)\<rparr>;
                   st3 = (if fl_gt val_acc (best_val_acc st2)
                          then st2\<lparr>best_val_acc := val_acc, patience_counter := 0\<rparr>
                          else st2\<lparr>patience_counter := Suc (patience_counter st2)\<rparr>)
               in if patience_counter st3 \<ge> P then st3\<lparr>stopped_at := Some epoch\<rparr>
                  else early_stop_loop K P sched ops epochs (Suc epoch) st3)
            else early_stop_loop K P sched ops epochs (Suc epoch) st1)
      else st)"
  by pat_completeness auto
termination
  by (relation "measure (\<lambda>(K, P, sched, ops, epochs, epoch, st). epochs - epoch)") auto

declare early_stop_loop.simps [simp del]

definition init_state :: "'m \<Rightarrow> 'm train_state" where
  "init_state m0 = \<lparr>model = m0, train_losses = [], val_accuracies = [], optimizer_steps = 0\<rparr>"

definition init_early_state :: "'m \<Rightarrow> 'm early_state" where
  "init_early_state m0 =
     \<lparr>model = m0, train_losses = [], val_accuracies = [], optimizer_steps = 0,
      best_val_acc = Fin 0, patience_counter = 0, stopped_at = None\<rparr>"

text \<open>
  The three trainers. None of them has a statement that raises: each returns its history.
\<close>

definition train_model :: "'m trainer_ops \<Rightarrow> nat \<Rightarrow> 'm \<Rightarrow> error + 'm train_state" where
  "train_model ops epochs m0 = Inr (train_model_loop ops epochs 0 (init_state m0))"

definition train_model_improved :: "'m trainer_ops \<Rightarrow> nat \<Rightarrow> 'm \<Rightarrow> error + 'm early_state" where
  "train_model_improved ops epochs m0 =
     Inr (early_stop_loop 10 50 True ops epochs 0 (init_early_state m0))"

definition train_model_high_confidence :: "'m trainer_ops \<Rightarrow> nat \<Rightarrow> 'm \<Rightarrow> error + 'm early_state" where
  "train_model_high_confidence ops epochs m0 =
     Inr (early_stop_loop 15 40 False ops epochs 0 (init_early_state m0))"

text \<open>
  The words of the specification on early stopping, over the list of validation
  accuracies of the checkpoints so far: the best accuracy observed (the code starts from
  0), whether checkpoint \<open>j\<close> improved on the best before it, and the number of most recent
  checkpoints in a row that did not.
\<close>

definition best_seen :: "pyfloat list \<Rightarrow> pyfloat" where
  "best_seen accs = fold (\<lambda>a b. if fl_gt a b then a else b) accs (Fin 0)"

definition improved_at :: "pyfloat list \<Rightarrow> nat \<Rightarrow> bool" where
  "improved_at accs j = fl_gt (accs ! j) (best_seen (take j accs))"

definition stale_checks :: "pyfloat list \<Rightarrow> nat" where
  "stale_checks accs =
     length (takeWhile (\<lambda>j. \<not> improved_at accs j) (rev [0..<length accs]))"

text \<open>
  The course of a training that nothing stops, in the words of the specification: every
  epoch makes one training step, and where the trainer has a scheduler, the scheduler
  steps after the training step of every \<open>K\<close>-th epoch (the epochs with a checkpoint):
  this is \<open>epoch_step ... e\<close>, the effect of epoch \<open>e\<close> on the model. \<open>model_at ... e\<close> is the parameter and optimizer state after \<open>e\<close> epochs; \<open>loss_at ... j\<close>
  and \<open>acc_at ... j\<close> are the loss and the validation accuracy at checkpoint \<open>j\<close>, that is
  in epoch \<open>K * j\<close>.
\<close>

definition epoch_step :: "bool \<Rightarrow> nat \<Rightarrow> 'm trainer_ops \<Rightarrow> nat \<Rightarrow> 'm \<Rightarrow> 'm" where
  "epoch_step sched K ops e m =
     (let m1 = fst (train_step ops m);
          loss = snd (train_step ops m)
      in if sched \<and> e mod K = 0 then scheduler_step ops loss m1 else m1)"

fun model_at :: "bool \<Rightarrow> nat \<Rightarrow> 'm trainer_ops \<Rightarrow> 'm \<Rightarrow> nat \<Rightarrow> 'm" where
  "model_at sched K ops m0 0 = m0"
| "model_at sched K ops m0 (Suc e) = epoch_step sched K ops e (model_at sched K ops m0 e)"

definition loss_at :: "bool \<Rightarrow> nat \<Rightarrow> 'm trainer_ops \<Rightarrow> 'm \<Rightarrow> nat \<Rightarrow> pyfloat" where
  "loss_at sched K ops m0 j = snd (train_step ops (model_at sched K ops m0 (K * j)))"

definition acc_at :: "bool \<Rightarrow> nat \<Rightarrow> 'm trainer_ops \<Rightarrow> 'm \<Rightarrow> nat \<Rightarrow> pyfloat" where
  "acc_at sched K ops m0 j =
     val_accuracy ops (fst (train_step ops (model_at sched K ops m0 (K * j))))"

text \<open>
  What the specification asks of a finished run of a trainer with validation every \<open>K\<close>
  epochs and a patience of \<open>P\<close> checkpoints, started from the model \<open>m0\<close>. The run has
  made at most \<open>epochs\<close> epochs and its model is the one that many epochs of training
  give; there was one checkpoint at every \<open>K\<close>-th epoch, starting with epoch 0, and the
  history holds the loss and the validation accuracy the model had at each of them; the
  trainer tracks the best accuracy and the number of checkpoints in a row without
  improvement; before the last checkpoint that number was always below \<open>P\<close>; and either
  the run stopped early, at the epoch of its last checkpoint, where that number had
  reached \<open>P\<close>, or it ran all \<open>epochs\<close> epochs and the number never reached \<open>P\<close>.
\<close>

definition early_stop_post ::
  "nat \<Rightarrow> nat \<Rightarrow> bool \<Rightarrow> 'm trainer_ops \<Rightarrow> 'm \<Rightarrow> nat \<Rightarrow> 'm early_state \<Rightarrow> bool" where
  "early_stop_post K P sched ops m0 epochs res \<longleftrightarrow>
     optimizer_steps res \<le> epochs \<and>
     model res = model_at sched K ops m0 (optimizer_steps res) \<and>
     length (val_accuracies res) = (optimizer_steps res + K - 1) div K \<and>
     val_accuracies res = map (acc_at sched K ops m0) [0..<length (val_accuracies res)] \<and>
     train_losses res = map (loss_at sched K ops m0) [0..<length (val_accuracies res)] \<and>
     best_val_acc res = best_seen (val_accuracies res) \<and>
     patience_counter res = stale_checks (val_accuracies res) \<and>
     (\<forall>j \<in> {1..<length (val_accuracies res)}. stale_checks (take j (val_accuracies res)) < P) \<and>
     (case stopped_at res of
        None \<Rightarrow> optimizer_steps res = epochs \<and>
                 (val_accuracies res \<noteq> [] \<longrightarrow> stale_checks (val_accuracies res) < P)
      | Some e \<Rightarrow> e < epochs \<and> optimizer_steps res = Suc e \<and>
                   e = K * (length (val_accuracies res) - 1) \<and>
                   P \<le> stale_checks (val_accuracies res))"

text \<open>
  Two trainers for the examples; in both the model state counts the parameter updates.
  With \<open>ramp_ops\<close> the validation accuracy grows with the number of updates up to 100 of
  them and stays at 1 from there on, so the checkpoints improve for a while and then
  stop improving. With \<open>nan_ops\<close> every loss is NaN.
\<close>

definition ramp_ops :: "int trainer_ops" where
  "ramp_ops = \<lparr>train_step = (\<lambda>m. (m + 1, Fin 1)),
     val_accuracy = (\<lambda>m. Fin (of_int (min m 100) / 100)),
     scheduler_step = (\<lambda>l m. m)\<rparr>"

definition nan_ops :: "nat trainer_ops" where
  "nan_ops = \<lparr>train_step = (\<lambda>m. (Suc m, NaN)), val_accuracy = (\<lambda>m. Fin 0),
     scheduler_step = (\<lambda>l m. m)\<rparr>"

section \<open>Command line entry points and the predictions file\<close>

text \<open>
  What the file system holds at a path: nothing, a file the process may not open, or a
  file with its content. A content is the graph export the loader reads (left abstract)
  or a predictions file.
\<close>

record artifact =
  art_predictions :: "int list"
  art_metadata :: "(string \<times> string) list"

datatype 'g content = Graph_json 'g | Prediction_json artifact

datatype 'g file_status = Missing | No_access | Readable "'g content"

type_synonym 'g filesystem = "string \<Rightarrow> 'g file_status"

definition os_path_exists :: "'g filesystem \<Rightarrow> string \<Rightarrow> bool" where
  "os_path_exists fs path = (fs path \<noteq> Missing)"

definition open_read :: "'g filesystem \<Rightarrow> string \<Rightarrow> error + 'g content" where
  "open_read fs path = (case fs path of Readable c \<Rightarrow> Inr c | _ \<Rightarrow> Inl OSError)"

definition open_write :: "'g filesystem \<Rightarrow> string \<Rightarrow> 'g content \<Rightarrow> error + 'g filesystem" where
  "open_write fs path c =
     (case fs path of No_access \<Rightarrow> Inl OSError | _ \<Rightarrow> Inr (fs(path := Readable c)))"

text \<open>\<open>os.path.join(a, b)\<close> for a relative \<open>b\<close>.\<close>

definition path_join :: "string \<Rightarrow> string \<Rightarrow> string" where
  "path_join a b = (if a = [] then b else if last a = CHR ''/'' then a @ b else a @ ''/'' @ b)"

text \<open>
  The attributes of the module \<open>torch\<close> that the scripts read. \<open>datetime\<close> is a module of
  Python's standard library; \<open>torch\<close> has no attribute of that name, and reading one that
  is missing raises AttributeError.
\<close>

definition torch_attributes :: "string list" where
  "torch_attributes = [''tensor'', ''float'', ''long'', ''bool'', ''nn'', ''optim'', ''no_grad'',
     ''max'', ''where'', ''zeros'', ''zeros_like'', ''ones'', ''clamp'', ''unique'', ''cat'']"

definition torch_getattr :: "string \<Rightarrow> error + string" where
  "torch_getattr name = (if name \<in> set torch_attributes then Inr name else Inl AttributeError)"

text \<open>
  \<open>save_predictions\<close> of train_graphsage.py. The dictionary \<open>prediction_data\<close> is built
  first, and its entry \<open>prediction_timestamp\<close> reads \<open>torch.datetime\<close>; the file is opened
  for writing after that.
\<close>

definition save_predictions_base ::
  "int list \<Rightarrow> string \<Rightarrow> (string \<times> string) list \<Rightarrow> 'g filesystem \<Rightarrow> (error + unit) \<times> 'g filesystem" where
  "save_predictions_base predictions output_path metadata fs =
     (case torch_getattr ''datetime'' of
        Inl e \<Rightarrow> (Inl e, fs)
      | Inr timestamp \<Rightarrow>
          (let prediction_data =
                 \<lparr>art_predictions = predictions,
                  art_metadata = metadata @ [(''model_type'', ''GraphSAGE''),
                                            (''prediction_timestamp'', timestamp)]\<rparr>
           in case open_write fs output_path (Prediction_json prediction_data) of
                Inl e \<Rightarrow> (Inl e, fs)
              | Inr fs1 \<Rightarrow> (Inr (), fs1)))"

text \<open>
  \<open>save_predictions\<close> of train_graphsage_improved.py: the timestamp comes from
  \<open>__import__('datetime').datetime.now().isoformat()\<close>, here the argument \<open>now\<close>.
\<close>

definition save_predictions_improved ::
  "string \<Rightarrow> int list \<Rightarrow> string \<Rightarrow> (string \<times> string) list \<Rightarrow> 'g filesystem \<Rightarrow> (error + unit) \<times> 'g filesystem" where
  "save_predictions_improved now predictions output_path metadata fs =
     (let prediction_data =
            \<lparr>art_predictions = predictions,
             art_metadata = metadata @ [(''model_type'', ''ImprovedGraphSAGE''),
                                       (''prediction_timestamp'', now)]\<rparr>
      in case open_write fs output_path (Prediction_json prediction_data) of
           Inl e \<Rightarrow> (Inl e, fs)
         | Inr fs1 \<Rightarrow> (Inr (), fs1))"

text \<open>
  A run of a script: the exit status of the process (0 when \<open>main\<close> returns, 1 when an
  exception leaves it), the error message printed by the guard, and the files afterwards.
  \<open>pipeline\<close> stands for everything between reading the file and saving: parsing, the
  tensors, the model, training and evaluation; it gives the predictions and the metadata
  or raises.
\<close>

record 'g run =
  exit_status :: int
  printed :: "string list"
  files :: "'g filesystem"

definition main_base ::
  "('g content \<Rightarrow> error + (int list \<times> (string \<times> string) list)) \<Rightarrow> 'g filesystem \<Rightarrow> string \<Rightarrow> string \<Rightarrow> 'g run" where
  "main_base pipeline fs data_path output_dir =
     (if \<not> os_path_exists fs data_path then
        \<lparr>exit_status = 0, printed = [''Data file not found: '' @ data_path], files = fs\<rparr>
      else
        (case open_read fs data_path of
           Inl e \<Rightarrow> \<lparr>exit_status = 1, printed = [], files = fs\<rparr>
         | Inr c \<Rightarrow>
             (case pipeline c of
                Inl e \<Rightarrow> \<lparr>exit_status = 1, printed = [], files = fs\<rparr>
              | Inr res \<Rightarrow>
                  (case save_predictions_base (fst res)
                          (path_join output_dir ''graphsage_predictions.json'') (snd res) fs of
                     (Inl e, fs1) \<Rightarrow> \<lparr>exit_status = 1, printed = [], files = fs1\<rparr>
                   | (Inr u, fs1) \<Rightarrow> \<lparr>exit_status = 0, printed = [], files = fs1\<rparr>))))"

definition main_improved ::
  "string \<Rightarrow> ('g content \<Rightarrow> error + (int list \<times> (string \<times> string) list)) \<Rightarrow> 'g filesystem \<Rightarrow> string \<Rightarrow> string \<Rightarrow> 'g run" where
  "main_improved now pipeline fs data_path output_dir =
     (if \<not> os_path_exists fs data_path then
        \<lparr>exit_status = 0, printed = [''Data file not found: '' @ data_path], files = fs\<rparr>
      else
        (case open_read fs data_path of
           Inl e \<Rightarrow> \<lparr>exit_status = 1, printed = [], files = fs\<rparr>
         | Inr c \<Rightarrow>
             (case pipeline c of
                Inl e \<Rightarrow> \<lparr>exit_status = 1, printed = [], files = fs\<rparr>
              | Inr res \<Rightarrow>
                  (case save_predictions_improved now (fst res)
                          (path_join output_dir ''improved_graphsage_predictions.json'') (snd res) fs of
                     (Inl e, fs1) \<Rightarrow> \<lparr>exit_status = 1, printed = [], files = fs1\<rparr>
                   | (Inr u, fs1) \<Rightarrow> \<lparr>exit_status = 0, printed = [], files = fs1\<rparr>))))"

section \<open>Saving predictions to the database (train_graphsage_direct.py)\<close>

text \<open>
  A row of \<open>graphsage_predictions\<close> (\<open>created_at\<close> is filled by the database). The table is
  \<open>None\<close> while it does not exist.
\<close>

record prediction_row =
  row_node_id :: int
  row_prediction :: int
  row_confidence :: real

text \<open>
  \<^verbatim>\<open>
  for idx, pred in enumerate(predictions):
      cursor.execute("INSERT ... VALUES (%s, %s, %s)", (idx, int(pred), 0.8))
  \<close>
  \<open>raises k\<close> says that the \<open>k\<close>-th call of \<open>cursor.execute\<close> fails (call 0 creates the
  table, call 1 deletes its rows, call \<open>2 + idx\<close> inserts prediction \<open>idx\<close>).
\<close>

fun insert_rows :: "(nat \<Rightarrow> bool) \<Rightarrow> nat \<Rightarrow> int list \<Rightarrow> prediction_row list \<Rightarrow> error + prediction_row list" where
  "insert_rows raises idx [] rows = Inr rows"
| "insert_rows raises idx (pred # predictions) rows =
     (if raises (2 + idx) then Inl DatabaseError
      else insert_rows raises (Suc idx) predictions
             (rows @ [\<lparr>row_node_id = int idx, row_prediction = pred, row_confidence = 8 / 10\<rparr>]))"

text \<open>
  \<open>save_predictions_to_db\<close>: on any exception the transaction is rolled back and the
  table is what it was; otherwise the commit leaves exactly the inserted rows.
\<close>

definition save_predictions_to_db ::
  "(nat \<Rightarrow> bool) \<Rightarrow> int list \<Rightarrow> prediction_row list option \<Rightarrow> prediction_row list option" where
  "save_predictions_to_db raises predictions table =
     (if raises 0 then table
      else if raises 1 then table
      else (case insert_rows raises 0 predictions [] of
              Inl e \<Rightarrow> table
            | Inr rows \<Rightarrow> Some rows))"

text \<open>\<open>node_ids = [row[0] for row in node_rows]\<close> of the loader: the identities in the database.\<close>

definition node_ids :: "node_row list \<Rightarrow> int list" where
  "node_ids node_rows = map node_id node_rows"

section \<open>Properties of the label generator\<close>

lemma label_loop_append:
  "label_loop rows acc =
     acc @ map (\<lambda>r. if degree r = 2 then 1 else if degree r \<ge> 4 then 2 else 0) rows"
  by (induction rows arbitrary: acc) (simp_all add: Let_def)

text \<open>
  Claim C3. The labels derived when no ground truth is given: one label per node, label 1
  for degree 2, label 2 for degree 4 and more, label 0 otherwise; the label vector depends
  on the rows only through their degrees, so deriving it again from the same graph (or
  from any graph with the same degrees) gives the same vector.
\<close>

theorem node_labels_by_degree:
  "length (generate_node_labels node_rows) = length node_rows \<and>
   (\<forall>i < length node_rows.
      generate_node_labels node_rows ! i =
        (if degree (node_rows ! i) = 2 then 1 else if degree (node_rows ! i) \<ge> 4 then 2 else 0)) \<and>
   (\<forall>other_rows. map degree other_rows = map degree node_rows \<longrightarrow>
      generate_node_labels other_rows = generate_node_labels node_rows)"
proof (intro conjI allI impI)
  show "length (generate_node_labels node_rows) = length node_rows"
    by (simp add: generate_node_labels_def label_loop_append)
next
  fix i assume "i < length node_rows"
  then show "generate_node_labels node_rows ! i =
        (if degree (node_rows ! i) = 2 then 1 else if degree (node_rows ! i) \<ge> 4 then 2 else 0)"
    by (simp add: generate_node_labels_def label_loop_append)
next
  fix other_rows :: "node_row list"
  assume eq: "map degree other_rows = map degree node_rows"
  have *: "map (\<lambda>r. if degree r = 2 then 1 else if degree r \<ge> 4 then 2 else (0::int)) rows
        = map (\<lambda>d. if d = 2 then 1 else if d \<ge> 4 then 2 else 0) (map degree rows)" for rows :: "node_row list"
    by (simp add: comp_def)
  show "generate_node_labels other_rows = generate_node_labels node_rows"
    unfolding generate_node_labels_def label_loop_append * eq ..
qed


theorem node_labels_by_degree_witness:
  "generate_node_labels (map row_of_degree [1, 2, 2, 3, 4, 5]) = [0, 1, 1, 0, 2, 2] \<and>
   generate_node_labels
     [\<lparr>node_id = 7, pos_x = 1, pos_y = 2, pos_z = 3, degree = 2, avg_incident_edge_length = 4\<rparr>]
     = generate_node_labels [row_of_degree 2]"
proof -
  let ?rows = "map row_of_degree [1, 2, 2, 3, 4, 5]"
  let ?r = "\<lparr>node_id = 7, pos_x = 1, pos_y = 2, pos_z = 3, degree = 2, avg_incident_edge_length = 4\<rparr>"
  note th = node_labels_by_degree [of ?rows]
  have len: "length (generate_node_labels ?rows) = 6"
    using th [THEN conjunct1] by simp
  have nth: "\<forall>i<6. generate_node_labels ?rows ! i =
        (if degree (?rows ! i) = 2 then 1 else if degree (?rows ! i) \<ge> 4 then 2 else 0)"
    using th [THEN conjunct2, THEN conjunct1] by simp
  have "generate_node_labels ?rows = [0, 1, 1, 0, 2, 2]"
  proof (rule nth_equalityI)
    show "length (generate_node_labels ?rows) = length [0, 1, 1, 0, 2, 2 :: int]"
      using len by simp
  next
    fix i assume "i < length (generate_node_labels ?rows)"
    then have "i < 6" using len by simp
    then consider "i = 0" | "i = 1" | "i = 2" | "i = 3" | "i = 4" | "i = 5" by linarith
    then show "generate_node_labels ?rows ! i = [0, 1, 1, 0, 2, 2] ! i"
      using nth by cases (simp_all add: row_of_degree_def)
  qed
  moreover have "generate_node_labels [?r] = generate_node_labels [row_of_degree 2]"
  proof -
    have "map degree [?r] = map degree [row_of_degree 2]"
      by (simp add: row_of_degree_def)
    then show ?thesis
      using node_labels_by_degree [of "[row_of_degree 2]", THEN conjunct2, THEN conjunct2] by blast
  qed
  ultimately show ?thesis by simp
qed

section \<open>Properties of the confidence gate\<close>













section \<open>Properties of the edge validation\<close>

lemma fold_max_ge: "fold max vs (v::int) \<ge> v \<and> (\<forall>x \<in> set vs. fold max vs v \<ge> x)"
  unfolding Max.set_eq_fold [symmetric] by simp

lemma fold_min_le: "fold min vs (v::int) \<le> v \<and> (\<forall>x \<in> set vs. fold min vs v \<le> x)"
  unfolding Min.set_eq_fold [symmetric] by simp

lemma fold_max_mem: "fold max vs (v::int) \<in> set (v # vs)"
  unfolding Max.set_eq_fold [symmetric] by (rule Max_in) simp_all

lemma fold_min_mem: "fold min vs (v::int) \<in> set (v # vs)"
  unfolding Min.set_eq_fold [symmetric] by (rule Min_in) simp_all

lemma tensor_max_some:
  assumes "fst ei \<noteq> []"
  shows "\<exists>mx. tensor_max ei = Inr mx \<and> mx \<in> set (fst ei @ snd ei) \<and>
           (\<forall>x \<in> set (fst ei @ snd ei). x \<le> mx)"
proof -
  obtain v vs where vs: "fst ei @ snd ei = v # vs"
    using assms by (cases "fst ei @ snd ei") auto
  have "tensor_max ei = Inr (fold max vs v)" by (simp add: tensor_max_def vs)
  moreover have "fold max vs v \<in> set (fst ei @ snd ei)"
    using fold_max_mem [of vs v] vs by simp
  moreover have "\<forall>x \<in> set (fst ei @ snd ei). x \<le> fold max vs v"
    using fold_max_ge [of v vs] vs by auto
  ultimately show ?thesis by blast
qed

lemma tensor_min_some:
  assumes "fst ei \<noteq> []"
  shows "\<exists>mn. tensor_min ei = Inr mn \<and> mn \<in> set (fst ei @ snd ei) \<and>
           (\<forall>x \<in> set (fst ei @ snd ei). mn \<le> x)"
proof -
  obtain v vs where vs: "fst ei @ snd ei = v # vs"
    using assms by (cases "fst ei @ snd ei") auto
  have "tensor_min ei = Inr (fold min vs v)" by (simp add: tensor_min_def vs)
  moreover have "fold min vs v \<in> set (fst ei @ snd ei)"
    using fold_min_mem [of vs v] vs by simp
  moreover have "\<forall>x \<in> set (fst ei @ snd ei). fold min vs v \<le> x"
    using fold_min_le [of vs v] vs by auto
  ultimately show ?thesis by blast
qed

lemma select_rows_filter:
  "length r0 = length r1 \<Longrightarrow>
   select_row r0 (map P (zip r0 r1)) = map fst (filter P (zip r0 r1)) \<and>
   select_row r1 (map P (zip r0 r1)) = map snd (filter P (zip r0 r1))"
proof (induction r0 r1 rule: list_induct2)
  case Nil
  then show ?case by (simp add: select_row_def)
next
  case (Cons x xs y ys)
  then show ?case by (simp add: select_row_def)
qed

lemma valid_mask_pred:
  "valid_edges_mask n ei = map (edge_in_range n) (zip (fst ei) (snd ei))"
  by (auto simp: valid_edges_mask_def edge_in_range_def)

lemma edges_of_select:
  assumes "length (fst ei) = length (snd ei)"
  shows "edges_of (select_columns ei (valid_edges_mask n ei)) = filter (edge_in_range n) (edges_of ei)"
proof -
  have "zip (map fst xs) (map snd xs) = xs" for xs :: "(int \<times> int) list"
    by (induction xs) auto
  then show ?thesis
    using select_rows_filter [OF assms, of "edge_in_range n"]
    by (simp add: edges_of_def select_columns_def valid_mask_pred)
qed

lemma select_lengths:
  assumes "length (fst ei) = length (snd ei)"
  shows "length (fst (select_columns ei (valid_edges_mask n ei))) = length (filter (edge_in_range n) (edges_of ei))"
    and "length (snd (select_columns ei (valid_edges_mask n ei))) = length (filter (edge_in_range n) (edges_of ei))"
  using select_rows_filter [OF assms, of "edge_in_range n"]
  by (simp_all add: edges_of_def select_columns_def valid_mask_pred)

lemma mask_sum_valid:
  "mask_sum (valid_edges_mask n ei) = length (filter (edge_in_range n) (edges_of ei))"
  by (simp add: mask_sum_def valid_mask_pred edges_of_def length_filter_map comp_def)

lemma rows_in_range:
  assumes "length (fst ei) = length (snd ei)" and "\<forall>e \<in> set (edges_of ei). edge_in_range n e"
  shows "\<forall>v \<in> set (fst ei @ snd ei). 0 \<le> v \<and> v < int n"
proof
  fix v assume "v \<in> set (fst ei @ snd ei)"
  then consider "v \<in> set (fst ei)" | "v \<in> set (snd ei)" by auto
  then show "0 \<le> v \<and> v < int n"
  proof cases
    case 1
    then have "v \<in> set (map fst (zip (fst ei) (snd ei)))" using assms(1) by simp
    then obtain e where "e \<in> set (edges_of ei)" "fst e = v" by (auto simp: edges_of_def)
    then show ?thesis using assms(2) by (auto simp: edge_in_range_def)
  next
    case 2
    then have "v \<in> set (map snd (zip (fst ei) (snd ei)))" using assms(1) by simp
    then obtain e where "e \<in> set (edges_of ei)" "snd e = v" by (auto simp: edges_of_def)
    then show ?thesis using assms(2) by (auto simp: edge_in_range_def)
  qed
qed

lemma clamp_in_range:
  assumes "length (fst ei) = length (snd ei)" and "\<forall>e \<in> set (edges_of ei). edge_in_range n e"
  shows "clamp_index 0 (int n - 1) ei = ei"
proof -
  have r: "\<forall>v \<in> set (fst ei @ snd ei). 0 \<le> v \<and> v < int n"
    by (rule rows_in_range [OF assms])
  have "map (\<lambda>v. min (max v 0) (int n - 1)) xs = xs" if "\<forall>v \<in> set xs. 0 \<le> v \<and> v < int n" for xs
    using that by (induction xs) auto
  then show ?thesis using r by (cases ei) (simp add: clamp_index_def)
qed

lemma edges_in_range_of_bounds:
  assumes "\<forall>x \<in> set (fst ei @ snd ei). x \<le> mx" and "\<forall>x \<in> set (fst ei @ snd ei). mn \<le> x"
    and "mx < int n" and "0 \<le> mn"
  shows "\<forall>e \<in> set (edges_of ei). edge_in_range n e"
proof
  fix e assume "e \<in> set (edges_of ei)"
  moreover obtain a b where ab: "e = (a, b)" by (cases e)
  ultimately have "(a, b) \<in> set (zip (fst ei) (snd ei))"
    by (simp add: edges_of_def)
  then have "a \<in> set (fst ei)" "b \<in> set (snd ei)"
    by (auto dest: set_zip_leftD set_zip_rightD)
  then have "fst e \<in> set (fst ei)" "snd e \<in> set (snd ei)"
    using ab by simp_all
  then have m: "fst e \<in> set (fst ei @ snd ei)" "snd e \<in> set (fst ei @ snd ei)"
    by simp_all
  have "fst e \<le> mx" "mn \<le> fst e" "snd e \<le> mx" "mn \<le> snd e"
    using assms(1,2) m by blast+
  then show "edge_in_range n e"
    using assms(3,4) by (simp add: edge_in_range_def)
qed

text \<open>
  What the validation step of the improved loader returns on a non-empty tensor: the
  edges inside the range, in their order, and nothing else. When the filter ran, the
  message gives the number of edges kept, and the number it calls removed is 0.
\<close>

lemma validate_edge_index_result:
  assumes len: "length (fst ei) = length (snd ei)" and ne: "fst ei \<noteq> []"
  shows "\<exists>ei1 r. validate_edge_index n ei = Inr (ei1, r) \<and>
           length (fst ei1) = length (snd ei1) \<and>
           edges_of ei1 = filter (edge_in_range n) (edges_of ei) \<and>
           (r = None \<longleftrightarrow> (\<forall>e \<in> set (edges_of ei). edge_in_range n e)) \<and>
           (\<forall>rep. r = Some rep \<longrightarrow> filtered_to rep = length (edges_of ei1) \<and> removed rep = 0)"
proof -
  obtain mx where mx: "tensor_max ei = Inr mx" "mx \<in> set (fst ei @ snd ei)"
    "\<forall>x \<in> set (fst ei @ snd ei). x \<le> mx"
    using tensor_max_some [OF ne] by blast
  obtain mn where mn: "tensor_min ei = Inr mn" "mn \<in> set (fst ei @ snd ei)"
    "\<forall>x \<in> set (fst ei @ snd ei). mn \<le> x"
    using tensor_min_some [OF ne] by blast
  show ?thesis
  proof (cases "mx \<ge> int n \<or> mn < 0")
    case True
    let ?sel = "select_columns ei (valid_edges_mask n ei)"
    have e1: "edges_of ?sel = filter (edge_in_range n) (edges_of ei)"
      by (rule edges_of_select [OF len])
    have l1: "length (fst ?sel) = length (snd ?sel)"
      using select_lengths [OF len, of n] by simp
    have "\<forall>e \<in> set (edges_of ?sel). edge_in_range n e" by (simp add: e1)
    then have cl: "clamp_index 0 (int n - 1) ?sel = ?sel"
      by (rule clamp_in_range [OF l1])
    have rm: "int (mask_sum (valid_edges_mask n ei)) - int (length (fst ?sel)) = 0"
      using select_lengths(1) [OF len, of n] by (simp add: mask_sum_valid)
    have ft: "length (fst ?sel) = length (edges_of ?sel)"
      using l1 by (simp add: edges_of_def)
    have res: "validate_edge_index n ei =
        Inr (?sel, Some \<lparr>filtered_to = length (fst ?sel), removed = 0\<rparr>)"
      using True mx(1) mn(1) cl rm by (simp add: validate_edge_index_def Let_def)
    have notall: "\<not> (\<forall>e \<in> set (edges_of ei). edge_in_range n e)"
    proof
      assume "\<forall>e \<in> set (edges_of ei). edge_in_range n e"
      then have "\<forall>v \<in> set (fst ei @ snd ei). 0 \<le> v \<and> v < int n"
        by (rule rows_in_range [OF len])
      then have "mx < int n" "0 \<le> mn" using mx(2) mn(2) by blast+
      then show False using True by linarith
    qed
    show ?thesis using res l1 e1 ft notall by simp
  next
    case False
    have all: "\<forall>e \<in> set (edges_of ei). edge_in_range n e"
      by (rule edges_in_range_of_bounds [OF mx(3) mn(3)]) (use False in auto)
    have cl: "clamp_index 0 (int n - 1) ei = ei"
      by (rule clamp_in_range [OF len all])
    have res: "validate_edge_index n ei = Inr (ei, None)"
      using False mx(1) mn(1) cl by (simp add: validate_edge_index_def)
    have "filter (edge_in_range n) (edges_of ei) = edges_of ei"
      using all by simp
    then show ?thesis using res len all by simp
  qed
qed

lemma view_2_result:
  "view_2 flat = Inr ei \<Longrightarrow> length (fst ei) = length (snd ei) \<and> fst ei @ snd ei = flat"
  by (auto simp: view_2_def split: if_splits elim!: evenE)

text \<open>
  Claim C2, at its own example: a graph of 10 nodes with the edges (0, 1), (1, 2) and
  (0, 999). The improved loader drops (0, 999) and keeps the two others, and the number
  it reports as removed is 0, not 1; the loader of the base script keeps the edge
  (0, 999) and reports nothing.
\<close>

theorem load_edge_index_reports_zero_removed:
  "load_edge_index_improved 10 [0, 1, 0, 1, 2, 999] =
     Inr (([0, 1], [1, 2]), Some \<lparr>filtered_to = 2, removed = 0\<rparr>) \<and>
   load_edge_index_base 10 [0, 1, 0, 1, 2, 999] = Inr ([0, 1, 0], [1, 2, 999])"
  by (simp add: load_edge_index_improved_def load_edge_index_base_def view_2_def
      validate_edge_index_def tensor_max_def tensor_min_def valid_edges_mask_def
      select_columns_def select_row_def mask_sum_def clamp_index_def Let_def)

text \<open>
  Claim C7. A non-empty edge tensor whose indices are all inside the range comes out of
  the validation step as it went in, with no filter message; and whatever the validation
  step returns, when it is not empty, comes out of a second validation unchanged.
\<close>

theorem validate_edge_index_idempotent:
  assumes "length (fst ei) = length (snd ei)" and "fst ei \<noteq> []"
  shows "(list_all (edge_in_range n) (edges_of ei) \<longrightarrow> validate_edge_index n ei = Inr (ei, None)) \<and>
         (\<forall>ei1 r. validate_edge_index n ei = Inr (ei1, r) \<and> fst ei1 \<noteq> [] \<longrightarrow>
            validate_edge_index n ei1 = Inr (ei1, None))"
proof -
  have valid_fix: "validate_edge_index n x = Inr (x, None)"
    if l: "length (fst x) = length (snd x)" and ne: "fst x \<noteq> []"
      and all: "\<forall>e \<in> set (edges_of x). edge_in_range n e" for x
  proof -
    obtain x1 r where r: "validate_edge_index n x = Inr (x1, r)"
      "length (fst x1) = length (snd x1)"
      "edges_of x1 = filter (edge_in_range n) (edges_of x)"
      "r = None \<longleftrightarrow> (\<forall>e \<in> set (edges_of x). edge_in_range n e)"
      using validate_edge_index_result [OF l ne, of n] by blast
    have "edges_of x1 = edges_of x" using r(3) all by simp
    then have "zip (fst x1) (snd x1) = zip (fst x) (snd x)" by (simp add: edges_of_def)
    then have z: "map fst (zip (fst x1) (snd x1)) = map fst (zip (fst x) (snd x))"
      "map snd (zip (fst x1) (snd x1)) = map snd (zip (fst x) (snd x))" by (rule arg_cong)+
    have "fst x1 = fst x"
      using z(1) unfolding map_fst_zip [OF r(2)] map_fst_zip [OF l] .
    moreover have "snd x1 = snd x"
      using z(2) unfolding map_snd_zip [OF r(2)] map_snd_zip [OF l] .
    ultimately have "x1 = x" by (rule prod_eqI)
    then show ?thesis using r(1,4) all by simp
  qed
  have first: "list_all (edge_in_range n) (edges_of ei) \<longrightarrow> validate_edge_index n ei = Inr (ei, None)"
    using valid_fix [OF assms] by (simp add: list_all_iff)
  have second: "validate_edge_index n ei1 = Inr (ei1, None)"
    if "validate_edge_index n ei = Inr (ei1, r) \<and> fst ei1 \<noteq> []" for ei1 r
  proof -
    obtain y s where y: "validate_edge_index n ei = Inr (y, s)"
      "length (fst y) = length (snd y)"
      "edges_of y = filter (edge_in_range n) (edges_of ei)"
      using validate_edge_index_result [OF assms, of n] by blast
    have "y = ei1" using y(1) that by simp
    then have "length (fst ei1) = length (snd ei1)"
      "\<forall>e \<in> set (edges_of ei1). edge_in_range n e"
      using y(2,3) by simp_all
    then show ?thesis using valid_fix that by blast
  qed
  show ?thesis using first second by blast
qed

theorem validate_edge_index_idempotent_witness:
  "length (fst ([0, 1, 0], [1, 2, 9 :: int])) = length (snd ([0, 1, 0], [1, 2, 9 :: int])) \<and>
   fst ([0, 1, 0], [1, 2, 9 :: int]) \<noteq> [] \<and>
   list_all (edge_in_range 10) (edges_of ([0, 1, 0], [1, 2, 9])) \<and>
   validate_edge_index 10 ([0, 1, 0], [1, 2, 9]) = Inr (([0, 1, 0], [1, 2, 9]), None) \<and>
   validate_edge_index 10 ([0, 1, 0], [1, 2, 999]) =
     Inr (([0, 1], [1, 2]), Some \<lparr>filtered_to = 2, removed = 0\<rparr>) \<and>
   validate_edge_index 10 ([0, 1], [1, 2]) = Inr (([0, 1], [1, 2]), None)"
proof -
  let ?a = "([0, 1, 0], [1, 2, 9 :: int])"
  let ?b = "([0, 1, 0], [1, 2, 999 :: int])"
  let ?c = "([0, 1], [1, 2 :: int])"
  have la: "length (fst ?a) = length (snd ?a)" and na: "fst ?a \<noteq> []" by simp_all
  have lb: "length (fst ?b) = length (snd ?b)" and nb: "fst ?b \<noteq> []" by simp_all
  have va: "list_all (edge_in_range 10) (edges_of ?a)"
    by (simp add: edges_of_def edge_in_range_def)
  have ra: "validate_edge_index 10 ?a = Inr (?a, None)"
    using validate_edge_index_idempotent [OF la na, of 10] va by blast
  have rb: "validate_edge_index 10 ?b = Inr (?c, Some \<lparr>filtered_to = 2, removed = 0\<rparr>)"
    by (simp add: validate_edge_index_def tensor_max_def tensor_min_def valid_edges_mask_def
      select_columns_def select_row_def mask_sum_def clamp_index_def Let_def)
  have rc: "validate_edge_index 10 ?c = Inr (?c, None)"
    using validate_edge_index_idempotent [OF lb nb, of 10] rb by simp
  show ?thesis using la na va ra rb rc by blast
qed

text \<open>
  The edge list without edges satisfies the range condition of claim C7 and does not come
  back: torch cannot take the maximum of a tensor without elements.
\<close>

theorem empty_edge_list_raises:
  "list_all (edge_in_range 10) (edges_of ([], [])) \<and>
   validate_edge_index 10 ([], []) = Inl RuntimeError \<and>
   load_edge_index_improved 10 [] = Inl RuntimeError"
  by (simp add: edges_of_def validate_edge_index_def tensor_max_def
      load_edge_index_improved_def view_2_def)

section \<open>Properties of the partitioner\<close>




















section \<open>Properties of the training loops\<close>

lemma best_seen_snoc:
  "best_seen (accs @ [a]) = (if fl_gt a (best_seen accs) then a else best_seen accs)"
  by (simp add: best_seen_def)

lemma improved_at_prefix:
  "j < length accs \<Longrightarrow> improved_at (accs @ [a]) j = improved_at accs j"
  by (simp add: improved_at_def nth_append)

lemma improved_at_last:
  "improved_at (accs @ [a]) (length accs) = fl_gt a (best_seen accs)"
  by (simp add: improved_at_def)

lemma stale_checks_snoc:
  "stale_checks (accs @ [a]) = (if fl_gt a (best_seen accs) then 0 else Suc (stale_checks accs))"
proof -
  have tw: "takeWhile (\<lambda>j. \<not> improved_at (accs @ [a]) j) (rev [0..<length accs]) =
            takeWhile (\<lambda>j. \<not> improved_at accs j) (rev [0..<length accs])"
    by (rule takeWhile_cong) (auto simp: improved_at_prefix)
  show ?thesis
    by (simp add: stale_checks_def improved_at_last tw)
qed

lemma stale_checks_le_length: "stale_checks accs \<le> length accs"
proof -
  have "length (takeWhile (\<lambda>j. \<not> improved_at accs j) (rev [0..<length accs]))
          \<le> length (rev [0..<length accs])"
    by (rule length_takeWhile_le)
  then show ?thesis by (simp add: stale_checks_def)
qed

lemma checkpoints_step_mult:
  assumes "0 < K" and "e mod K = 0"
  shows "(Suc e + K - 1) div K = Suc ((e + K - 1) div K)" and "K * ((e + K - 1) div K) = e"
proof -
  obtain t where t: "e = K * t" using assms(2) by (auto simp: mod_eq_0_iff_dvd)
  have a: "(K * t + K - 1) div K = t"
  proof -
    have "K * t + K - 1 = (K - 1) + t * K" using assms(1) by (simp add: algebra_simps)
    then have "(K * t + K - 1) div K = (K - 1) div K + t" by (simp only: div_mult_self1 [OF less_imp_neq [OF assms(1), symmetric]])
    then show ?thesis using assms(1) by simp
  qed
  have b: "(Suc (K * t) + K - 1) div K = Suc t"
  proof -
    have "Suc (K * t) + K - 1 = K * Suc t" by simp
    then show ?thesis using assms(1) by simp
  qed
  show "(Suc e + K - 1) div K = Suc ((e + K - 1) div K)" using a b t by simp
  show "K * ((e + K - 1) div K) = e" using a t by simp
qed

lemma checkpoints_step_other:
  assumes "0 < K" and "e mod K \<noteq> 0"
  shows "(Suc e + K - 1) div K = (e + K - 1) div K"
proof -
  define t where "t = e div K"
  define r where "r = e mod K"
  have e: "e = r + t * K" by (simp add: t_def r_def)
  have r: "0 < r" "r < K" using assms by (simp_all add: r_def)
  have "Suc e + K - 1 = r + Suc t * K" by (simp add: e algebra_simps)
  then have "(Suc e + K - 1) div K = (r + Suc t * K) div K" by (rule arg_cong)
  also have "\<dots> = r div K + Suc t" using assms(1) by (simp only: div_mult_self1 [OF less_imp_neq [OF assms(1), symmetric]])
  also have "\<dots> = Suc t" using r by simp
  finally have a: "(Suc e + K - 1) div K = Suc t" .
  have "e + K - 1 = (r - 1) + Suc t * K" using r by (simp add: e)
  then have "(e + K - 1) div K = (r - 1) div K + Suc t" by (simp only: div_mult_self1 [OF less_imp_neq [OF assms(1), symmetric]])
  also have "\<dots> = Suc t" using r by simp
  finally show ?thesis using a by simp
qed


lemma take_snoc_le: "j \<le> length xs \<Longrightarrow> take j (xs @ [a]) = take j xs"
  by simp

lemma map_upt_snoc: "map f [0..<Suc n] = map f [0..<n] @ [f n]"
  by simp

lemma model_at_no_sched:
  "model_at False K ops m0 e = ((\<lambda>m. fst (train_step ops m)) ^^ e) m0"
  by (induction e) (simp_all add: epoch_step_def Let_def)

text \<open>
  The invariant of the early stopping loop at the head of epoch \<open>epoch\<close>, and what it
  gives for the state the loop returns.
\<close>

lemma early_stop_loop_post:
  assumes K: "0 < K"
    and le: "epoch \<le> epochs"
    and steps: "optimizer_steps st = epoch"
    and len: "length (val_accuracies st) = (epoch + K - 1) div K"
    and mdl: "model st = model_at sched K ops m0 epoch"
    and accs: "val_accuracies st = map (acc_at sched K ops m0) [0..<length (val_accuracies st)]"
    and losses: "train_losses st = map (loss_at sched K ops m0) [0..<length (val_accuracies st)]"
    and best: "best_val_acc st = best_seen (val_accuracies st)"
    and pc: "patience_counter st = stale_checks (val_accuracies st)"
    and below: "\<forall>j \<in> {1..length (val_accuracies st)}. stale_checks (take j (val_accuracies st)) < P"
    and nostop: "stopped_at st = None"
  shows "early_stop_post K P sched ops m0 epochs (early_stop_loop K P sched ops epochs epoch st)"
  using le steps len mdl accs losses best pc below nostop
proof (induction "epochs - epoch" arbitrary: epoch st)
  case 0
  then have eq: "epoch = epochs" by simp
  have res: "early_stop_loop K P sched ops epochs epoch st = st"
    by (subst early_stop_loop.simps) (simp add: eq)
  have last: "val_accuracies st \<noteq> [] \<longrightarrow> stale_checks (val_accuracies st) < P"
  proof
    assume "val_accuracies st \<noteq> []"
    then have "length (val_accuracies st) \<in> {1..length (val_accuracies st)}"
      by (cases "val_accuracies st") simp_all
    then have "stale_checks (take (length (val_accuracies st)) (val_accuracies st)) < P"
      using "0.prems"(9) by blast
    then show "stale_checks (val_accuracies st) < P" by simp
  qed
  have r1: "optimizer_steps st \<le> epochs" using "0.prems"(2) eq by simp
  have r2: "model st = model_at sched K ops m0 (optimizer_steps st)"
    using "0.prems"(2,4) by simp
  have r3: "length (val_accuracies st) = (optimizer_steps st + K - 1) div K"
    using "0.prems"(2,3) by simp
  have r5: "\<forall>j \<in> {1..<length (val_accuracies st)}. stale_checks (take j (val_accuracies st)) < P"
    using "0.prems"(9) by simp
  have r6: "(case stopped_at st of
               None \<Rightarrow> optimizer_steps st = epochs \<and>
                 (val_accuracies st \<noteq> [] \<longrightarrow> stale_checks (val_accuracies st) < P)
             | Some e \<Rightarrow> e < epochs \<and> optimizer_steps st = Suc e \<and>
                 e = K * (length (val_accuracies st) - 1) \<and>
                 P \<le> stale_checks (val_accuracies st))"
    unfolding "0.prems"(10) option.case using "0.prems"(2) eq last by simp
  show ?case
    unfolding res early_stop_post_def
    by (intro conjI r1 r2 r3 "0.prems"(5) "0.prems"(6) "0.prems"(7) "0.prems"(8) r5 r6)
next
  case (Suc d)
  note le = Suc.prems(1) and steps = Suc.prems(2) and len = Suc.prems(3) and mdl = Suc.prems(4)
    and accs = Suc.prems(5) and losses = Suc.prems(6) and best = Suc.prems(7)
    and pc = Suc.prems(8) and below = Suc.prems(9) and nostop = Suc.prems(10)
  have lt: "epoch < epochs" using Suc.hyps(2) by simp
  have d: "d = epochs - Suc epoch" using Suc.hyps(2) by simp
  define m1 where "m1 = fst (train_step ops (model st))"
  define loss where "loss = snd (train_step ops (model st))"
  define st1 where "st1 = st\<lparr>model := m1, optimizer_steps := Suc (optimizer_steps st)\<rparr>"
  let ?accs = "val_accuracies st"
  let ?n = "length (val_accuracies st)"
  have le1: "Suc epoch \<le> epochs" using lt by simp
  show ?case
  proof (cases "epoch mod K = 0")
    case False
    have res: "early_stop_loop K P sched ops epochs epoch st =
               early_stop_loop K P sched ops epochs (Suc epoch) st1"
      by (subst early_stop_loop.simps) (simp add: lt False Let_def m1_def st1_def)
    have s1: "optimizer_steps st1 = Suc epoch" using steps by (simp add: st1_def)
    have l1: "length (val_accuracies st1) = (Suc epoch + K - 1) div K"
      using len checkpoints_step_other [OF K False] by (simp add: st1_def)
    have md1: "model st1 = model_at sched K ops m0 (Suc epoch)"
      using mdl False by (simp add: st1_def m1_def epoch_step_def Let_def)
    have a1: "val_accuracies st1 = map (acc_at sched K ops m0) [0..<length (val_accuracies st1)]"
      using accs by (simp add: st1_def)
    have lo1: "train_losses st1 = map (loss_at sched K ops m0) [0..<length (val_accuracies st1)]"
      using losses by (simp add: st1_def)
    have b1: "best_val_acc st1 = best_seen (val_accuracies st1)" using best by (simp add: st1_def)
    have p1: "patience_counter st1 = stale_checks (val_accuracies st1)"
      using pc by (simp add: st1_def)
    have bl1: "\<forall>j \<in> {1..length (val_accuracies st1)}. stale_checks (take j (val_accuracies st1)) < P"
      using below by (simp add: st1_def)
    have ns1: "stopped_at st1 = None" using nostop by (simp add: st1_def)
    have "early_stop_post K P sched ops m0 epochs
            (early_stop_loop K P sched ops epochs (Suc epoch) st1)"
      by (rule Suc.hyps(1) [OF d le1 s1 l1 md1 a1 lo1 b1 p1 bl1 ns1])
    then show ?thesis by (simp only: res)
  next
    case True
    define va where "va = val_accuracy ops m1"
    define st2 where "st2 = st1\<lparr>train_losses := train_losses st1 @ [loss],
                             val_accuracies := val_accuracies st1 @ [va],
                             model := (if sched then scheduler_step ops loss m1 else m1)\<rparr>"
    define st3 where "st3 = (if fl_gt va (best_val_acc st2)
                          then st2\<lparr>best_val_acc := va, patience_counter := 0\<rparr>
                          else st2\<lparr>patience_counter := Suc (patience_counter st2)\<rparr>)"
    have ep: "K * ?n = epoch"
      using len checkpoints_step_mult(2) [OF K True] by simp
    have va_at: "va = acc_at sched K ops m0 ?n"
      using mdl by (simp add: va_def m1_def acc_at_def ep)
    have loss_at: "loss = loss_at sched K ops m0 ?n"
      using mdl by (simp add: loss_def loss_at_def ep)
    have accs3: "val_accuracies st3 = ?accs @ [va]"
      by (simp add: st3_def st2_def st1_def)
    have losses3: "train_losses st3 = train_losses st @ [loss]"
      by (simp add: st3_def st2_def st1_def)
    have len3n: "length (val_accuracies st3) = Suc ?n" by (simp add: accs3)
    have steps3: "optimizer_steps st3 = Suc epoch"
      using steps by (simp add: st3_def st2_def st1_def)
    have md3: "model st3 = model_at sched K ops m0 (Suc epoch)"
      using mdl True by (simp add: st3_def st2_def st1_def m1_def loss_def epoch_step_def Let_def)
    have a3: "val_accuracies st3 = map (acc_at sched K ops m0) [0..<length (val_accuracies st3)]"
      unfolding len3n map_upt_snoc accs3 va_at using accs by simp
    have lo3: "train_losses st3 = map (loss_at sched K ops m0) [0..<length (val_accuracies st3)]"
      unfolding len3n map_upt_snoc losses3 loss_at using losses by simp
    have best2: "best_val_acc st2 = best_seen ?accs"
      using best by (simp add: st2_def st1_def)
    have pc2: "patience_counter st2 = stale_checks ?accs"
      using pc by (simp add: st2_def st1_def)
    have best3: "best_val_acc st3 = best_seen (val_accuracies st3)"
      unfolding accs3 best_seen_snoc using best2 by (simp add: st3_def)
    have pc3: "patience_counter st3 = stale_checks (val_accuracies st3)"
      unfolding accs3 stale_checks_snoc using best2 pc2 by (simp add: st3_def)
    have len3: "length (val_accuracies st3) = (Suc epoch + K - 1) div K"
      unfolding accs3 using len checkpoints_step_mult(1) [OF K True] by simp
    have stop3: "stopped_at st3 = None"
      using nostop by (simp add: st3_def st2_def st1_def)
    have before: "\<forall>j \<in> {1..<length (val_accuracies st3)}.
                    stale_checks (take j (val_accuracies st3)) < P"
      unfolding accs3 using below by simp
    have unf: "early_stop_loop K P sched ops epochs epoch st =
                 (if patience_counter st3 \<ge> P then st3\<lparr>stopped_at := Some epoch\<rparr>
                  else early_stop_loop K P sched ops epochs (Suc epoch) st3)"
      by (subst early_stop_loop.simps)
         (simp only: lt True if_True simp_thms Let_def m1_def loss_def st1_def va_def st2_def st3_def)
    show ?thesis
    proof (cases "patience_counter st3 \<ge> P")
      case stop: True
      have res: "early_stop_loop K P sched ops epochs epoch st = st3\<lparr>stopped_at := Some epoch\<rparr>"
        using stop by (simp only: unf if_True)
      let ?r = "st3\<lparr>stopped_at := Some epoch\<rparr>"
      have r1: "optimizer_steps ?r \<le> epochs" using steps3 lt by simp
      have r1m: "model ?r = model_at sched K ops m0 (optimizer_steps ?r)"
        using md3 steps3 by simp
      have r2: "length (val_accuracies ?r) = (optimizer_steps ?r + K - 1) div K"
        using len3 steps3 by simp
      have r2a: "val_accuracies ?r = map (acc_at sched K ops m0) [0..<length (val_accuracies ?r)]"
        using a3 by simp
      have r2l: "train_losses ?r = map (loss_at sched K ops m0) [0..<length (val_accuracies ?r)]"
        using lo3 by simp
      have r3: "best_val_acc ?r = best_seen (val_accuracies ?r)" using best3 by simp
      have r4: "patience_counter ?r = stale_checks (val_accuracies ?r)" using pc3 by simp
      have r5: "\<forall>j \<in> {1..<length (val_accuracies ?r)}.
                  stale_checks (take j (val_accuracies ?r)) < P"
        using before by simp
      have r6: "epoch < epochs \<and> optimizer_steps ?r = Suc epoch \<and>
                epoch = K * (length (val_accuracies ?r) - 1) \<and>
                P \<le> stale_checks (val_accuracies ?r)"
      proof (intro conjI)
        show "epoch < epochs" by (rule lt)
        show "optimizer_steps ?r = Suc epoch" using steps3 by simp
        show "epoch = K * (length (val_accuracies ?r) - 1)" using ep by (simp add: accs3)
        show "P \<le> stale_checks (val_accuracies ?r)" using stop pc3 by simp
      qed
      have r7: "stopped_at ?r = Some epoch" by simp
      have r8: "(case stopped_at ?r of
                   None \<Rightarrow> optimizer_steps ?r = epochs \<and>
                     (val_accuracies ?r \<noteq> [] \<longrightarrow> stale_checks (val_accuracies ?r) < P)
                 | Some e \<Rightarrow> e < epochs \<and> optimizer_steps ?r = Suc e \<and>
                     e = K * (length (val_accuracies ?r) - 1) \<and>
                     P \<le> stale_checks (val_accuracies ?r))"
        unfolding r7 option.case by (rule r6)
      show ?thesis
        unfolding res early_stop_post_def
        by (intro conjI r1 r1m r2 r2a r2l r3 r4 r5 r8)
    next
      case go: False
      have res: "early_stop_loop K P sched ops epochs epoch st =
                 early_stop_loop K P sched ops epochs (Suc epoch) st3"
        using go by (simp only: unf if_False)
      have bl3: "\<forall>j \<in> {1..length (val_accuracies st3)}.
                   stale_checks (take j (val_accuracies st3)) < P"
      proof
        fix j assume j: "j \<in> {1..length (val_accuracies st3)}"
        show "stale_checks (take j (val_accuracies st3)) < P"
        proof (cases "j = length (val_accuracies st3)")
          case True
          then show ?thesis using go pc3 by simp
        next
          case False
          then have "j \<in> {1..<length (val_accuracies st3)}" using j by simp
          then show ?thesis using before by blast
        qed
      qed
      have "early_stop_post K P sched ops m0 epochs
              (early_stop_loop K P sched ops epochs (Suc epoch) st3)"
        by (rule Suc.hyps(1) [OF d le1 steps3 len3 md3 a3 lo3 best3 pc3 bl3 stop3])
      then show ?thesis by (simp only: res)
    qed
  qed
qed


lemma init_early_state_inv:
  assumes "0 < K"
  shows "early_stop_post K P sched ops m0 epochs
           (early_stop_loop K P sched ops epochs 0 (init_early_state m0))"
proof (rule early_stop_loop_post [OF assms])
  show "length (val_accuracies (init_early_state m0)) = (0 + K - 1) div K"
    using assms by (simp add: init_early_state_def)
  show "best_val_acc (init_early_state m0) = best_seen (val_accuracies (init_early_state m0))"
    by (simp add: init_early_state_def best_seen_def)
  show "patience_counter (init_early_state m0) = stale_checks (val_accuracies (init_early_state m0))"
    by (simp add: init_early_state_def stale_checks_def)
qed (simp_all add: init_early_state_def)

text \<open>
  Claim C5. Both trainers with early stopping return, after at most \<open>epochs\<close> epochs, with
  the model those epochs of training give and with the validation accuracy the model had
  at each checkpoint in their history. The improved trainer validates every 10 epochs
  and has a patience of 50 checkpoints, the high confidence trainer every 15 epochs with
  a patience of 40 checkpoints. A run stops early exactly at the first checkpoint at
  which the number of checkpoints in a row without improvement on the best accuracy so
  far reaches the patience; otherwise it runs all epochs. The patience counts
  checkpoints, not epochs.
\<close>

theorem early_stopping_within_patience:
  "(\<exists>res. train_model_improved ops epochs m0 = Inr res \<and>
           early_stop_post 10 50 True ops m0 epochs res) \<and>
   (\<exists>res. train_model_high_confidence ops epochs m0 = Inr res \<and>
           early_stop_post 15 40 False ops m0 epochs res)"
proof -
  have "early_stop_post 10 50 True ops m0 epochs
          (early_stop_loop 10 50 True ops epochs 0 (init_early_state m0))"
    by (rule init_early_state_inv) simp
  moreover
  have "early_stop_post 15 40 False ops m0 epochs
          (early_stop_loop 15 40 False ops epochs 0 (init_early_state m0))"
    by (rule init_early_state_inv) simp
  ultimately show ?thesis
    by (simp add: train_model_improved_def train_model_high_confidence_def)
qed

lemma early_stop_post_stopped:
  assumes "early_stop_post K P sched ops m0 epochs res" and "stopped_at res = Some e"
  shows "optimizer_steps res = Suc e" and "P \<le> stale_checks (val_accuracies res)"
    and "length (val_accuracies res) = (Suc e + K - 1) div K"
    and "model res = model_at sched K ops m0 (Suc e)"
    and "val_accuracies res = map (acc_at sched K ops m0) [0..<(Suc e + K - 1) div K]"
    and "best_val_acc res = best_seen (val_accuracies res)"
proof -
  have c: "case stopped_at res of
             None \<Rightarrow> optimizer_steps res = epochs \<and>
               (val_accuracies res \<noteq> [] \<longrightarrow> stale_checks (val_accuracies res) < P)
           | Some e \<Rightarrow> e < epochs \<and> optimizer_steps res = Suc e \<and>
               e = K * (length (val_accuracies res) - 1) \<and>
               P \<le> stale_checks (val_accuracies res)"
    using assms(1) unfolding early_stop_post_def by blast
  have c': "e < epochs \<and> optimizer_steps res = Suc e \<and>
            e = K * (length (val_accuracies res) - 1) \<and>
            P \<le> stale_checks (val_accuracies res)"
    using c unfolding assms(2) option.case .
  show s: "optimizer_steps res = Suc e" using c' by (rule conjunct2 [THEN conjunct1])
  show "P \<le> stale_checks (val_accuracies res)"
    using c' by (rule conjunct2 [THEN conjunct2, THEN conjunct2])
  have l: "length (val_accuracies res) = (optimizer_steps res + K - 1) div K"
    using assms(1) unfolding early_stop_post_def by blast
  show l': "length (val_accuracies res) = (Suc e + K - 1) div K"
    using l unfolding s .
  have m: "model res = model_at sched K ops m0 (optimizer_steps res)"
    using assms(1) unfolding early_stop_post_def by blast
  show "model res = model_at sched K ops m0 (Suc e)" using m unfolding s .
  have a: "val_accuracies res = map (acc_at sched K ops m0) [0..<length (val_accuracies res)]"
    using assms(1) unfolding early_stop_post_def by blast
  show "val_accuracies res = map (acc_at sched K ops m0) [0..<(Suc e + K - 1) div K]"
    using a unfolding l' .
  show "best_val_acc res = best_seen (val_accuracies res)"
    using assms(1) unfolding early_stop_post_def by blast
qed

text \<open>
  A run of each trainer on \<open>ramp_ops\<close> with 800 epochs. The accuracy improves at every
  checkpoint up to the one of epoch 100 (improved trainer) or 105 (high confidence
  trainer), where it reaches 1; from there on no checkpoint improves, and the run stops
  at the 50th (40th) checkpoint after it, in epoch 600 = 10 * (10 + 50) and in epoch
  705 = 15 * (7 + 40), long before 50 or 40 epochs without improvement would have ended
  it and before the 800 epochs are over.
\<close>

theorem early_stopping_within_patience_witness:
  "(\<exists>res. train_model_improved ramp_ops 800 0 = Inr res \<and> stopped_at res = Some 600 \<and>
      optimizer_steps res = 601 \<and> model res = 601 \<and> length (val_accuracies res) = 61 \<and>
      val_accuracies res ! 9 = Fin (91 / 100) \<and> val_accuracies res ! 10 = Fin 1 \<and>
      val_accuracies res ! 60 = Fin 1 \<and>
      best_val_acc res = Fin 1 \<and> stale_checks (val_accuracies res) = 50) \<and>
   (\<exists>res. train_model_high_confidence ramp_ops 800 0 = Inr res \<and> stopped_at res = Some 705 \<and>
      optimizer_steps res = 706 \<and> model res = 706 \<and> length (val_accuracies res) = 48 \<and>
      val_accuracies res ! 6 = Fin (91 / 100) \<and> val_accuracies res ! 7 = Fin 1 \<and>
      val_accuracies res ! 47 = Fin 1 \<and>
      best_val_acc res = Fin 1 \<and> stale_checks (val_accuracies res) = 40)"
proof -
  note th = early_stopping_within_patience [of ramp_ops 800 0]
  obtain r1 where r1: "train_model_improved ramp_ops 800 0 = Inr r1"
    "early_stop_post 10 50 True ramp_ops 0 800 r1"
    using th by blast
  obtain r2 where r2: "train_model_high_confidence ramp_ops 800 0 = Inr r2"
    "early_stop_post 15 40 False ramp_ops 0 800 r2"
    using th by blast
  have e1: "let r = early_stop_loop 10 50 True ramp_ops 800 0 (init_early_state 0)
            in stopped_at r = Some 600 \<and> best_val_acc r = Fin 1 \<and> patience_counter r = 50"
    by code_simp
  have e2: "let r = early_stop_loop 15 40 False ramp_ops 800 0 (init_early_state 0)
            in stopped_at r = Some 705 \<and> best_val_acc r = Fin 1 \<and> patience_counter r = 40"
    by code_simp
  have q1: "r1 = early_stop_loop 10 50 True ramp_ops 800 0 (init_early_state 0)"
    using r1(1) by (simp add: train_model_improved_def)
  have q2: "r2 = early_stop_loop 15 40 False ramp_ops 800 0 (init_early_state 0)"
    using r2(1) by (simp add: train_model_high_confidence_def)
  have s1: "stopped_at r1 = Some 600" and bv1: "best_val_acc r1 = Fin 1"
    and pc1: "patience_counter r1 = 50"
    using e1 unfolding Let_def q1 [symmetric] by blast+
  have s2: "stopped_at r2 = Some 705" and bv2: "best_val_acc r2 = Fin 1"
    and pc2: "patience_counter r2 = 40"
    using e2 unfolding Let_def q2 [symmetric] by blast+
  note p1 = early_stop_post_stopped [OF r1(2) s1]
  note p2 = early_stop_post_stopped [OF r2(2) s2]
  have st1: "optimizer_steps r1 = 601" using p1(1) by simp
  have st2: "optimizer_steps r2 = 706" using p2(1) by simp
  have l1: "length (val_accuracies r1) = 61" using p1(3) by simp
  have l2: "length (val_accuracies r2) = 48" using p2(3) by simp
  have m1: "model r1 = 601"
  proof -
    have "model_at True 10 ramp_ops 0 (Suc 600) = 601" by code_simp
    then show ?thesis using p1(4) by simp
  qed
  have m2: "model r2 = 706"
  proof -
    have "model_at False 15 ramp_ops 0 (Suc 705) = 706" by code_simp
    then show ?thesis using p2(4) by simp
  qed
  have n1: "val_accuracies r1 ! j = acc_at True 10 ramp_ops 0 j" if "j < 61" for j
  proof -
    have "val_accuracies r1 ! j = map (acc_at True 10 ramp_ops 0) [0..<61] ! j"
      using p1(5) by simp
    also have "\<dots> = acc_at True 10 ramp_ops 0 j"
      using that by (simp only: nth_map_upt minus_nat.diff_0 add_0)
    finally show ?thesis .
  qed
  have n2: "val_accuracies r2 ! j = acc_at False 15 ramp_ops 0 j" if "j < 48" for j
  proof -
    have "val_accuracies r2 ! j = map (acc_at False 15 ramp_ops 0) [0..<48] ! j"
      using p2(5) by simp
    also have "\<dots> = acc_at False 15 ramp_ops 0 j"
      using that by (simp only: nth_map_upt minus_nat.diff_0 add_0)
    finally show ?thesis .
  qed
  have c19: "acc_at True 10 ramp_ops 0 9 = Fin (91 / 100)" by code_simp
  have c110: "acc_at True 10 ramp_ops 0 10 = Fin 1" by code_simp
  have c160: "acc_at True 10 ramp_ops 0 60 = Fin 1" by code_simp
  have c26: "acc_at False 15 ramp_ops 0 6 = Fin (91 / 100)" by code_simp
  have c27: "acc_at False 15 ramp_ops 0 7 = Fin 1" by code_simp
  have c247: "acc_at False 15 ramp_ops 0 47 = Fin 1" by code_simp
  have a19: "val_accuracies r1 ! 9 = Fin (91 / 100)" using n1 [of 9] c19 by simp
  have a110: "val_accuracies r1 ! 10 = Fin 1" using n1 [of 10] c110 by simp
  have a160: "val_accuracies r1 ! 60 = Fin 1" using n1 [of 60] c160 by simp
  have a26: "val_accuracies r2 ! 6 = Fin (91 / 100)" using n2 [of 6] c26 by simp
  have a27: "val_accuracies r2 ! 7 = Fin 1" using n2 [of 7] c27 by simp
  have a247: "val_accuracies r2 ! 47 = Fin 1" using n2 [of 47] c247 by simp
  have sc1: "stale_checks (val_accuracies r1) = 50"
  proof -
    have "patience_counter r1 = stale_checks (val_accuracies r1)"
      using r1(2) unfolding early_stop_post_def by blast
    then show ?thesis using pc1 by simp
  qed
  have sc2: "stale_checks (val_accuracies r2) = 40"
  proof -
    have "patience_counter r2 = stale_checks (val_accuracies r2)"
      using r2(2) unfolding early_stop_post_def by blast
    then show ?thesis using pc2 by simp
  qed
  have first: "\<exists>res. train_model_improved ramp_ops 800 0 = Inr res \<and> stopped_at res = Some 600 \<and>
      optimizer_steps res = 601 \<and> model res = 601 \<and> length (val_accuracies res) = 61 \<and>
      val_accuracies res ! 9 = Fin (91 / 100) \<and> val_accuracies res ! 10 = Fin 1 \<and>
      val_accuracies res ! 60 = Fin 1 \<and>
      best_val_acc res = Fin 1 \<and> stale_checks (val_accuracies res) = 50"
    using r1(1) s1 st1 m1 l1 a19 a110 a160 bv1 sc1 by blast
  have second: "\<exists>res. train_model_high_confidence ramp_ops 800 0 = Inr res \<and>
      stopped_at res = Some 705 \<and>
      optimizer_steps res = 706 \<and> model res = 706 \<and> length (val_accuracies res) = 48 \<and>
      val_accuracies res ! 6 = Fin (91 / 100) \<and> val_accuracies res ! 7 = Fin 1 \<and>
      val_accuracies res ! 47 = Fin 1 \<and>
      best_val_acc res = Fin 1 \<and> stale_checks (val_accuracies res) = 40"
    using r2(1) s2 st2 m2 l2 a26 a27 a247 bv2 sc2 by blast
  show ?thesis using first second by blast
qed

text \<open>
  The loop of the base trainer: at the head of epoch \<open>epoch\<close> the model is the one
  \<open>epoch\<close> training steps give and the history holds the loss and the accuracy of every
  tenth epoch so far; so it is at the end.
\<close>

lemma train_model_loop_post:
  assumes le: "epoch \<le> epochs"
    and steps: "optimizer_steps st = epoch"
    and mdl: "model st = model_at False 10 ops m0 epoch"
    and accs: "val_accuracies st = map (acc_at False 10 ops m0) [0..<(epoch + 10 - 1) div 10]"
    and losses: "train_losses st = map (loss_at False 10 ops m0) [0..<(epoch + 10 - 1) div 10]"
  shows "optimizer_steps (train_model_loop ops epochs epoch st) = epochs \<and>
         model (train_model_loop ops epochs epoch st) = model_at False 10 ops m0 epochs \<and>
         val_accuracies (train_model_loop ops epochs epoch st) =
           map (acc_at False 10 ops m0) [0..<(epochs + 10 - 1) div 10] \<and>
         train_losses (train_model_loop ops epochs epoch st) =
           map (loss_at False 10 ops m0) [0..<(epochs + 10 - 1) div 10]"
  using le steps mdl accs losses
proof (induction "epochs - epoch" arbitrary: epoch st)
  case 0
  then have eq: "epoch = epochs" by simp
  have res: "train_model_loop ops epochs epoch st = st"
    by (subst train_model_loop.simps) (simp add: eq)
  show ?case
    unfolding res using "0.prems"(2,3,4,5) unfolding eq by (intro conjI)
next
  case (Suc d)
  note le = Suc.prems(1) and steps = Suc.prems(2) and mdl = Suc.prems(3)
    and accs = Suc.prems(4) and losses = Suc.prems(5)
  have lt: "epoch < epochs" using Suc.hyps(2) by simp
  have d: "d = epochs - Suc epoch" using Suc.hyps(2) by simp
  have le1: "Suc epoch \<le> epochs" using lt by simp
  have K: "0 < (10::nat)" by simp
  define m1 where "m1 = fst (train_step ops (model st))"
  define loss where "loss = snd (train_step ops (model st))"
  define st1 where "st1 = st\<lparr>model := m1, optimizer_steps := Suc (optimizer_steps st)\<rparr>"
  have md1: "m1 = model_at False 10 ops m0 (Suc epoch)"
    using mdl by (simp add: m1_def epoch_step_def Let_def)
  show ?case
  proof (cases "epoch mod 10 = 0")
    case False
    have res: "train_model_loop ops epochs epoch st = train_model_loop ops epochs (Suc epoch) st1"
      by (subst train_model_loop.simps) (simp add: lt False Let_def m1_def st1_def)
    have n: "(Suc epoch + 10 - 1) div 10 = (epoch + 10 - 1) div 10"
      by (rule checkpoints_step_other [OF K False])
    have s1: "optimizer_steps st1 = Suc epoch" using steps by (simp add: st1_def)
    have m1': "model st1 = model_at False 10 ops m0 (Suc epoch)"
      using md1 by (simp add: st1_def)
    have a1: "val_accuracies st1 = map (acc_at False 10 ops m0) [0..<(Suc epoch + 10 - 1) div 10]"
      unfolding n using accs by (simp add: st1_def)
    have l1: "train_losses st1 = map (loss_at False 10 ops m0) [0..<(Suc epoch + 10 - 1) div 10]"
      unfolding n using losses by (simp add: st1_def)
    show ?thesis
      unfolding res by (rule Suc.hyps(1) [OF d le1 s1 m1' a1 l1])
  next
    case True
    define st2 where "st2 = st1\<lparr>train_losses := train_losses st1 @ [loss],
                             val_accuracies := val_accuracies st1 @ [val_accuracy ops m1]\<rparr>"
    define n where "n = (epoch + 10 - 1) div 10"
    have res: "train_model_loop ops epochs epoch st = train_model_loop ops epochs (Suc epoch) st2"
      by (subst train_model_loop.simps)
         (simp only: lt True if_True simp_thms Let_def m1_def loss_def st1_def st2_def)
    have n1: "(Suc epoch + 10 - 1) div 10 = Suc n"
      unfolding n_def by (rule checkpoints_step_mult(1) [OF K True])
    have ep: "10 * n = epoch"
      unfolding n_def by (rule checkpoints_step_mult(2) [OF K True])
    have va: "val_accuracy ops m1 = acc_at False 10 ops m0 n"
      using mdl by (simp add: m1_def acc_at_def ep)
    have lo: "loss = loss_at False 10 ops m0 n"
      using mdl by (simp add: loss_def loss_at_def ep)
    have s2: "optimizer_steps st2 = Suc epoch" using steps by (simp add: st2_def st1_def)
    have m2: "model st2 = model_at False 10 ops m0 (Suc epoch)"
      using md1 by (simp add: st2_def st1_def)
    have a2: "val_accuracies st2 = map (acc_at False 10 ops m0) [0..<(Suc epoch + 10 - 1) div 10]"
      unfolding n1 map_upt_snoc using accs va by (simp add: st2_def st1_def n_def)
    have l2: "train_losses st2 = map (loss_at False 10 ops m0) [0..<(Suc epoch + 10 - 1) div 10]"
      unfolding n1 map_upt_snoc using losses lo by (simp add: st2_def st1_def n_def)
    show ?thesis
      unfolding res by (rule Suc.hyps(1) [OF d le1 s2 m2 a2 l2])
  qed
qed

text \<open>
  Claim C6, as the code has it. No trainer looks at the loss: for every training step,
  whatever loss it returns (finite, infinite or NaN), \<open>train_model\<close> returns normally
  after exactly \<open>epochs\<close> parameter updates, its model being the result of \<open>epochs\<close>
  training steps in a row, with the loss and the accuracy of every tenth epoch in its
  history exactly as the training step and the validation gave them; and
  \<open>train_model_improved\<close> returns normally with the model its epochs of training give and
  with the loss of every tenth epoch in its history, after all \<open>epochs\<close> epochs or at the
  epoch where early stopping ended it. No run ends with a TrainingDivergedError.
\<close>

theorem training_returns_whatever_the_loss:
  "(\<exists>res. train_model ops epochs m0 = Inr res \<and>
      optimizer_steps res = epochs \<and>
      model res = ((\<lambda>m. fst (train_step ops m)) ^^ epochs) m0 \<and>
      train_losses res =
        map (\<lambda>j. snd (train_step ops (((\<lambda>m. fst (train_step ops m)) ^^ (10 * j)) m0)))
          [0..<(epochs + 9) div 10] \<and>
      val_accuracies res =
        map (\<lambda>j. val_accuracy ops (((\<lambda>m. fst (train_step ops m)) ^^ (10 * j + 1)) m0))
          [0..<(epochs + 9) div 10]) \<and>
   (\<exists>res. train_model_improved ops epochs m0 = Inr res \<and>
      model res = model_at True 10 ops m0 (optimizer_steps res) \<and>
      train_losses res =
        map (loss_at True 10 ops m0) [0..<(optimizer_steps res + 9) div 10] \<and>
      (optimizer_steps res = epochs \<or>
       (\<exists>e. stopped_at res = Some e \<and> e < epochs \<and> optimizer_steps res = Suc e \<and>
            50 \<le> stale_checks (val_accuracies res)))) \<and>
   train_model ops epochs m0 \<noteq> Inl TrainingDivergedError \<and>
   train_model_improved ops epochs m0 \<noteq> Inl TrainingDivergedError"
proof -
  let ?r = "train_model_loop ops epochs 0 (init_state m0)"
  have base: "optimizer_steps ?r = epochs \<and>
         model ?r = model_at False 10 ops m0 epochs \<and>
         val_accuracies ?r = map (acc_at False 10 ops m0) [0..<(epochs + 10 - 1) div 10] \<and>
         train_losses ?r = map (loss_at False 10 ops m0) [0..<(epochs + 10 - 1) div 10]"
    by (rule train_model_loop_post) (simp_all add: init_state_def)
  have b1: "optimizer_steps ?r = epochs" using base by (rule conjunct1)
  have b2: "model ?r = ((\<lambda>m. fst (train_step ops m)) ^^ epochs) m0"
    using base by (simp only: model_at_no_sched)
  have b3: "train_losses ?r =
        map (\<lambda>j. snd (train_step ops (((\<lambda>m. fst (train_step ops m)) ^^ (10 * j)) m0)))
          [0..<(epochs + 9) div 10]"
  proof -
    have "train_losses ?r = map (loss_at False 10 ops m0) [0..<(epochs + 10 - 1) div 10]"
      using base by (rule conjunct2 [THEN conjunct2, THEN conjunct2])
    moreover have "loss_at False 10 ops m0 =
        (\<lambda>j. snd (train_step ops (((\<lambda>m. fst (train_step ops m)) ^^ (10 * j)) m0)))"
      by (rule ext) (simp add: loss_at_def model_at_no_sched)
    moreover have "(epochs + 10 - 1) div 10 = (epochs + 9) div 10" by simp
    ultimately show ?thesis by (simp only:)
  qed
  have b4: "val_accuracies ?r =
        map (\<lambda>j. val_accuracy ops (((\<lambda>m. fst (train_step ops m)) ^^ (10 * j + 1)) m0))
          [0..<(epochs + 9) div 10]"
  proof -
    have "val_accuracies ?r = map (acc_at False 10 ops m0) [0..<(epochs + 10 - 1) div 10]"
      using base by (rule conjunct2 [THEN conjunct2, THEN conjunct1])
    moreover have "acc_at False 10 ops m0 =
        (\<lambda>j. val_accuracy ops (((\<lambda>m. fst (train_step ops m)) ^^ (10 * j + 1)) m0))"
      by (rule ext) (simp add: acc_at_def model_at_no_sched)
    moreover have "(epochs + 10 - 1) div 10 = (epochs + 9) div 10" by simp
    ultimately show ?thesis by (simp only:)
  qed
  have first: "\<exists>res. train_model ops epochs m0 = Inr res \<and>
      optimizer_steps res = epochs \<and>
      model res = ((\<lambda>m. fst (train_step ops m)) ^^ epochs) m0 \<and>
      train_losses res =
        map (\<lambda>j. snd (train_step ops (((\<lambda>m. fst (train_step ops m)) ^^ (10 * j)) m0)))
          [0..<(epochs + 9) div 10] \<and>
      val_accuracies res =
        map (\<lambda>j. val_accuracy ops (((\<lambda>m. fst (train_step ops m)) ^^ (10 * j + 1)) m0))
          [0..<(epochs + 9) div 10]"
    unfolding train_model_def using b1 b2 b3 b4 by blast
  let ?e = "early_stop_loop 10 50 True ops epochs 0 (init_early_state m0)"
  have post: "early_stop_post 10 50 True ops m0 epochs ?e"
    by (rule init_early_state_inv) simp
  have i1: "model ?e = model_at True 10 ops m0 (optimizer_steps ?e)"
    using post unfolding early_stop_post_def by blast
  have i2: "length (val_accuracies ?e) = (optimizer_steps ?e + 10 - 1) div 10"
    using post unfolding early_stop_post_def by blast
  have i3: "train_losses ?e = map (loss_at True 10 ops m0) [0..<length (val_accuracies ?e)]"
    using post unfolding early_stop_post_def by blast
  have i3': "train_losses ?e = map (loss_at True 10 ops m0) [0..<(optimizer_steps ?e + 9) div 10]"
  proof -
    have "length (val_accuracies ?e) = (optimizer_steps ?e + 9) div 10" using i2 by simp
    then show ?thesis using i3 by (rule subst)
  qed
  have i4: "case stopped_at ?e of
              None \<Rightarrow> optimizer_steps ?e = epochs \<and>
                (val_accuracies ?e \<noteq> [] \<longrightarrow> stale_checks (val_accuracies ?e) < 50)
            | Some e \<Rightarrow> e < epochs \<and> optimizer_steps ?e = Suc e \<and>
                e = 10 * (length (val_accuracies ?e) - 1) \<and>
                50 \<le> stale_checks (val_accuracies ?e)"
    using post unfolding early_stop_post_def by blast
  have i5: "optimizer_steps ?e = epochs \<or>
       (\<exists>e. stopped_at ?e = Some e \<and> e < epochs \<and> optimizer_steps ?e = Suc e \<and>
            50 \<le> stale_checks (val_accuracies ?e))"
  proof (cases "stopped_at ?e")
    case None
    then show ?thesis using i4 by simp
  next
    case (Some e)
    have "e < epochs \<and> optimizer_steps ?e = Suc e \<and>
                e = 10 * (length (val_accuracies ?e) - 1) \<and>
                50 \<le> stale_checks (val_accuracies ?e)"
      using i4 unfolding Some option.case .
    then show ?thesis using Some by blast
  qed
  have second: "\<exists>res. train_model_improved ops epochs m0 = Inr res \<and>
      model res = model_at True 10 ops m0 (optimizer_steps res) \<and>
      train_losses res =
        map (loss_at True 10 ops m0) [0..<(optimizer_steps res + 9) div 10] \<and>
      (optimizer_steps res = epochs \<or>
       (\<exists>e. stopped_at res = Some e \<and> e < epochs \<and> optimizer_steps res = Suc e \<and>
            50 \<le> stale_checks (val_accuracies res)))"
    unfolding train_model_improved_def using i1 i3' i5 by blast
  have third: "train_model ops epochs m0 \<noteq> Inl TrainingDivergedError"
    by (simp add: train_model_def)
  have fourth: "train_model_improved ops epochs m0 \<noteq> Inl TrainingDivergedError"
    by (simp add: train_model_improved_def)
  show ?thesis using first second third fourth by blast
qed

lemma nan_ops_steps: "((\<lambda>m. fst (train_step nan_ops m)) ^^ n) m = m + n"
  by (induction n) (simp_all add: nan_ops_def)

text \<open>
  With \<open>nan_ops\<close> every loss is NaN, from the first step on. A run of 25 epochs of the
  base trainer still makes all 25 parameter updates and records the three NaN of the
  epochs 0, 10 and 20; the improved trainer records them too and makes all 25 updates.
\<close>

theorem training_returns_whatever_the_loss_witness:
  "\<not> is_finite (snd (train_step nan_ops 0)) \<and>
   (\<exists>res. train_model nan_ops 25 0 = Inr res \<and> optimizer_steps res = 25 \<and> model res = 25 \<and>
      train_losses res = [NaN, NaN, NaN] \<and> val_accuracies res = [Fin 0, Fin 0, Fin 0]) \<and>
   (\<exists>res. train_model_improved nan_ops 25 0 = Inr res \<and> optimizer_steps res = 25 \<and>
      model res = 25 \<and> train_losses res = [NaN, NaN, NaN])"
proof -
  note th = training_returns_whatever_the_loss [of nan_ops 25 0]
  have a: "\<not> is_finite (snd (train_step nan_ops 0))" by (simp add: nan_ops_def)
  obtain r1 where r1: "train_model nan_ops 25 0 = Inr r1" "optimizer_steps r1 = 25"
    "model r1 = ((\<lambda>m. fst (train_step nan_ops m)) ^^ 25) 0"
    "train_losses r1 =
        map (\<lambda>j. snd (train_step nan_ops (((\<lambda>m. fst (train_step nan_ops m)) ^^ (10 * j)) 0)))
          [0..<(25 + 9) div 10]"
    "val_accuracies r1 =
        map (\<lambda>j. val_accuracy nan_ops (((\<lambda>m. fst (train_step nan_ops m)) ^^ (10 * j + 1)) 0))
          [0..<(25 + 9) div 10]"
    using th by blast
  obtain r2 where r2: "train_model_improved nan_ops 25 0 = Inr r2"
    "model r2 = model_at True 10 nan_ops 0 (optimizer_steps r2)"
    "train_losses r2 = map (loss_at True 10 nan_ops 0) [0..<(optimizer_steps r2 + 9) div 10]"
    "optimizer_steps r2 = 25 \<or>
       (\<exists>e. stopped_at r2 = Some e \<and> e < 25 \<and> optimizer_steps r2 = Suc e \<and>
            50 \<le> stale_checks (val_accuracies r2))"
    using th by blast
  have up: "[0..<(25 + 9) div 10] = [0, 1, 2::nat]" by (simp add: upt_rec)
  have m1: "model r1 = 25" using r1(3) by (simp add: nan_ops_steps)
  have l1: "train_losses r1 = [NaN, NaN, NaN]"
    unfolding r1(4) up by (simp add: nan_ops_def)
  have v1: "val_accuracies r1 = [Fin 0, Fin 0, Fin 0]"
    unfolding r1(5) up by (simp add: nan_ops_def)
  have stop: "stopped_at (early_stop_loop 10 50 True nan_ops 25 0 (init_early_state 0)) = None"
    by code_simp
  have q2: "r2 = early_stop_loop 10 50 True nan_ops 25 0 (init_early_state 0)"
    using r2(1) by (simp add: train_model_improved_def)
  have s2: "optimizer_steps r2 = 25" using r2(4) stop unfolding q2 [symmetric] by auto
  have m2: "model r2 = 25"
  proof -
    have "model_at True 10 nan_ops 0 25 = 25" by code_simp
    then show ?thesis using r2(2) unfolding s2 by simp
  qed
  have l2: "train_losses r2 = [NaN, NaN, NaN]"
    unfolding r2(3) s2 up by (simp add: loss_at_def nan_ops_def)
  have first: "\<exists>res. train_model nan_ops 25 0 = Inr res \<and> optimizer_steps res = 25 \<and>
      model res = 25 \<and> train_losses res = [NaN, NaN, NaN] \<and>
      val_accuracies res = [Fin 0, Fin 0, Fin 0]"
    using r1(1,2) m1 l1 v1 by blast
  have second: "\<exists>res. train_model_improved nan_ops 25 0 = Inr res \<and> optimizer_steps res = 25 \<and>
      model res = 25 \<and> train_losses res = [NaN, NaN, NaN]"
    using r2(1) s2 m2 l2 by blast
  show ?thesis using a first second by blast
qed

text \<open>
  Against claim C6 as it was stated: with a loss that is NaN from the first step on, the
  base trainer and the improved trainer both go on. Three epochs make three parameter
  updates, the NaN is recorded in the history, and the result is a normal return, not a
  TrainingDivergedError.
\<close>

theorem nan_loss_training_continues:
  "\<not> is_finite (snd (train_step nan_ops 0)) \<and>
   train_model nan_ops 3 0 =
     Inr \<lparr>model = 3, train_losses = [NaN], val_accuracies = [Fin 0], optimizer_steps = 3\<rparr> \<and>
   train_model nan_ops 3 0 \<noteq> Inl TrainingDivergedError \<and>
   train_model_improved nan_ops 3 0 =
     Inr \<lparr>model = 3, train_losses = [NaN], val_accuracies = [Fin 0], optimizer_steps = 3,
          best_val_acc = Fin 0, patience_counter = 1, stopped_at = None\<rparr> \<and>
   train_model_improved nan_ops 3 0 \<noteq> Inl TrainingDivergedError"
proof -
  have a: "\<not> is_finite (snd (train_step nan_ops 0))" by (simp add: nan_ops_def)
  have b: "train_model nan_ops 3 0 =
     Inr \<lparr>model = 3, train_losses = [NaN], val_accuracies = [Fin 0], optimizer_steps = 3\<rparr>"
    by (simp add: train_model_def train_model_loop.simps init_state_def nan_ops_def Let_def)
  have c: "train_model_improved nan_ops 3 0 =
     Inr \<lparr>model = 3, train_losses = [NaN], val_accuracies = [Fin 0], optimizer_steps = 3,
          best_val_acc = Fin 0, patience_counter = 1, stopped_at = None\<rparr>"
    by (simp add: train_model_improved_def early_stop_loop.simps init_early_state_def
        nan_ops_def Let_def)
  show ?thesis using a b c by simp
qed

section \<open>Properties of the entry points and of saving\<close>

text \<open>
  Claim C8, at a data path where no file is: the guard of \<open>main\<close> prints its message and
  returns, so the process ends with exit status 0, in the improved script and in the base
  script alike. (A file that exists and cannot be opened ends the process with status 1.)
\<close>

theorem missing_data_file_exits_zero:
  "main_improved now pipeline (\<lambda>path. Missing) ''missing.json'' ''test-output'' =
     \<lparr>exit_status = 0, printed = [''Data file not found: missing.json''],
      files = (\<lambda>path. Missing)\<rparr> \<and>
   main_base pipeline (\<lambda>path. Missing) ''missing.json'' ''test-output'' =
     \<lparr>exit_status = 0, printed = [''Data file not found: missing.json''],
      files = (\<lambda>path. Missing)\<rparr>"
  by (simp add: main_improved_def main_base_def os_path_exists_def)

lemma no_access_data_file_exits_one:
  "fs data_path = No_access \<Longrightarrow>
   exit_status (main_improved now pipeline fs data_path output_dir) = 1 \<and>
   exit_status (main_base pipeline fs data_path output_dir) = 1"
  by (simp add: main_improved_def main_base_def os_path_exists_def open_read_def)

lemma torch_has_no_datetime: "torch_getattr ''datetime'' = Inl AttributeError"
  by (simp add: torch_getattr_def torch_attributes_def)

text \<open>
  Claim C9. For every predictions array, output path, metadata and file system,
  \<open>save_predictions\<close> of the base script raises AttributeError and leaves the file system
  as it was; and whatever the base script is run on, the files after the run are the
  files before it: no predictions file is ever written.
\<close>

theorem save_predictions_base_raises:
  "save_predictions_base predictions output_path metadata fs = (Inl AttributeError, fs) \<and>
   files (main_base pipeline fs data_path output_dir) = fs"
proof -
  have a: "save_predictions_base p out md fs = (Inl AttributeError, fs)" for p out md
    by (simp add: save_predictions_base_def torch_has_no_datetime)
  have "files (main_base pipeline fs data_path output_dir) = fs"
    by (simp add: main_base_def a split: sum.splits)
  then show ?thesis using a by simp
qed

theorem save_predictions_base_raises_witness:
  "save_predictions_base [0, 1, 2] ''test-output/graphsage_predictions.json''
      [(''test_accuracy'', ''0.9'')] (\<lambda>path. Missing :: unit file_status)
     = (Inl AttributeError, (\<lambda>path. Missing)) \<and>
   save_predictions_improved ''2025-01-01T00:00:00'' [0, 1, 2]
      ''test-output/improved_graphsage_predictions.json''
      [(''test_accuracy'', ''0.9'')] (\<lambda>path. Missing :: unit file_status)
     = (Inr (), (\<lambda>path. Missing)(''test-output/improved_graphsage_predictions.json'' :=
          Readable (Prediction_json \<lparr>art_predictions = [0, 1, 2],
            art_metadata = [(''test_accuracy'', ''0.9''), (''model_type'', ''ImprovedGraphSAGE''),
                            (''prediction_timestamp'', ''2025-01-01T00:00:00'')]\<rparr>)))"
proof -
  have "save_predictions_base [0, 1, 2] ''test-output/graphsage_predictions.json''
      [(''test_accuracy'', ''0.9'')] (\<lambda>path. Missing :: unit file_status)
     = (Inl AttributeError, (\<lambda>path. Missing))"
    using save_predictions_base_raises by blast
  then show ?thesis
    by (simp add: save_predictions_improved_def open_write_def)
qed

section \<open>Properties of saving to the database\<close>

lemma insert_rows_result:
  "insert_rows raises idx predictions rows = Inr out \<Longrightarrow>
   length out = length rows + length predictions \<and>
   (\<forall>i < length rows. out ! i = rows ! i) \<and>
   (\<forall>i < length predictions.
      out ! (length rows + i) =
        \<lparr>row_node_id = int (idx + i), row_prediction = predictions ! i, row_confidence = 8 / 10\<rparr>)"
proof (induction predictions arbitrary: idx rows)
  case Nil
  then show ?case by simp
next
  case (Cons pred predictions)
  let ?row = "\<lparr>row_node_id = int idx, row_prediction = pred, row_confidence = 8 / 10\<rparr>"
  have run: "insert_rows raises (Suc idx) predictions (rows @ [?row]) = Inr out"
    using Cons.prems by (simp split: if_splits)
  note ih = Cons.IH [OF run]
  have len: "length out = length rows + length (pred # predictions)" using ih by simp
  have old: "\<forall>i < length rows. out ! i = rows ! i"
  proof (intro allI impI)
    fix i assume i: "i < length rows"
    then have "out ! i = (rows @ [?row]) ! i" using ih by simp
    then show "out ! i = rows ! i" using i by (simp add: nth_append)
  qed
  have new: "out ! (length rows + i) =
        \<lparr>row_node_id = int (idx + i), row_prediction = (pred # predictions) ! i,
         row_confidence = 8 / 10\<rparr>" if "i < length (pred # predictions)" for i
  proof (cases i)
    case 0
    have "out ! length rows = (rows @ [?row]) ! length rows" using ih by simp
    then show ?thesis using 0 by simp
  next
    case (Suc k)
    then have "k < length predictions" using that by simp
    then have "out ! (length (rows @ [?row]) + k) =
        \<lparr>row_node_id = int (Suc idx + k), row_prediction = predictions ! k,
         row_confidence = 8 / 10\<rparr>"
      using ih by blast
    then show ?thesis using Suc by simp
  qed
  show ?case using len old new by blast
qed

lemma insert_rows_no_raise:
  "\<forall>i < length predictions. \<not> raises (2 + idx + i) \<Longrightarrow>
   \<exists>out. insert_rows raises idx predictions rows = Inr out"
proof (induction predictions arbitrary: idx rows)
  case Nil
  then show ?case by simp
next
  case (Cons pred predictions)
  have first: "\<not> raises (2 + idx)" using Cons.prems by force
  have rest: "\<forall>i < length predictions. \<not> raises (2 + Suc idx + i)"
  proof (intro allI impI)
    fix i assume "i < length predictions"
    then have "\<not> raises (2 + idx + Suc i)" using Cons.prems by force
    then show "\<not> raises (2 + Suc idx + i)" by simp
  qed
  show ?case using first Cons.IH [OF rest] by simp
qed

text \<open>
  Claim C10. Whatever \<open>save_predictions_to_db\<close> leaves in the predictions table, it is
  either the table as it was (an exception, rolled back) or one row per prediction, in
  order, whose \<open>node_id\<close> is the position of the prediction in the array and whose
  confidence is the constant 0.8; and when no statement fails it is the latter. The
  function is given neither the probabilities nor the node identities of the database.
\<close>

theorem db_rows_index_and_constant_confidence:
  "(save_predictions_to_db raises predictions table = table \<or>
    (\<exists>rows. save_predictions_to_db raises predictions table = Some rows \<and>
       length rows = length predictions \<and>
       (\<forall>i < length predictions.
          row_node_id (rows ! i) = int i \<and> row_prediction (rows ! i) = predictions ! i \<and>
          row_confidence (rows ! i) = 8 / 10))) \<and>
   ((\<forall>k < length predictions + 2. \<not> raises k) \<longrightarrow>
    (\<exists>rows. save_predictions_to_db raises predictions table = Some rows \<and>
       length rows = length predictions \<and>
       (\<forall>i < length predictions.
          row_node_id (rows ! i) = int i \<and> row_prediction (rows ! i) = predictions ! i \<and>
          row_confidence (rows ! i) = 8 / 10)))"
proof -
  have ok: "length rows = length predictions \<and>
       (\<forall>i < length predictions.
          row_node_id (rows ! i) = int i \<and> row_prediction (rows ! i) = predictions ! i \<and>
          row_confidence (rows ! i) = 8 / 10)"
    if "insert_rows raises 0 predictions [] = Inr rows" for rows
    using insert_rows_result [OF that] by simp
  have first: "save_predictions_to_db raises predictions table = table \<or>
    (\<exists>rows. save_predictions_to_db raises predictions table = Some rows \<and>
       length rows = length predictions \<and>
       (\<forall>i < length predictions.
          row_node_id (rows ! i) = int i \<and> row_prediction (rows ! i) = predictions ! i \<and>
          row_confidence (rows ! i) = 8 / 10))"
  proof (cases "insert_rows raises 0 predictions []")
    case (Inl e)
    then show ?thesis by (simp add: save_predictions_to_db_def)
  next
    case (Inr rows)
    show ?thesis
    proof (cases "raises 0 \<or> raises 1")
      case True
      then show ?thesis by (auto simp: save_predictions_to_db_def)
    next
      case False
      then have "save_predictions_to_db raises predictions table = Some rows"
        using Inr by (simp add: save_predictions_to_db_def)
      then show ?thesis using ok [OF Inr] by blast
    qed
  qed
  have second: "\<exists>rows. save_predictions_to_db raises predictions table = Some rows \<and>
       length rows = length predictions \<and>
       (\<forall>i < length predictions.
          row_node_id (rows ! i) = int i \<and> row_prediction (rows ! i) = predictions ! i \<and>
          row_confidence (rows ! i) = 8 / 10)"
    if nr: "\<forall>k < length predictions + 2. \<not> raises k"
  proof -
    have "\<forall>i < length predictions. \<not> raises (2 + 0 + i)" using nr by simp
    then obtain rows where rows: "insert_rows raises 0 predictions [] = Inr rows"
      using insert_rows_no_raise by blast
    have "\<not> raises 0" "\<not> raises 1" using nr by simp_all
    then have "save_predictions_to_db raises predictions table = Some rows"
      using rows by (simp add: save_predictions_to_db_def)
    then show ?thesis using ok [OF rows] by blast
  qed
  show ?thesis using first second by blast
qed

theorem db_rows_index_and_constant_confidence_witness:
  "node_ids [\<lparr>node_id = 101, pos_x = 0, pos_y = 0, pos_z = 0, degree = 2,
              avg_incident_edge_length = 1\<rparr>,
             \<lparr>node_id = 205, pos_x = 1, pos_y = 1, pos_z = 0, degree = 4,
              avg_incident_edge_length = 1\<rparr>] = [101, 205] \<and>
   save_predictions_to_db (\<lambda>k. False) [1, 2] None =
     Some [\<lparr>row_node_id = 0, row_prediction = 1, row_confidence = 8 / 10\<rparr>,
           \<lparr>row_node_id = 1, row_prediction = 2, row_confidence = 8 / 10\<rparr>] \<and>
   (\<exists>rows. save_predictions_to_db (\<lambda>k. False) [1, 2] None = Some rows \<and>
      map row_node_id rows = [0, 1] \<and> map row_confidence rows = [8 / 10, 8 / 10])"
proof -
  have ev: "save_predictions_to_db (\<lambda>k. False) [1, 2] None =
     Some [\<lparr>row_node_id = 0, row_prediction = 1, row_confidence = 8 / 10\<rparr>,
           \<lparr>row_node_id = 1, row_prediction = 2, row_confidence = 8 / 10\<rparr>]"
    by (simp add: save_predictions_to_db_def)
  have nr: "\<forall>k < length [1, 2 :: int] + 2. \<not> (\<lambda>k. False) k" by simp
  obtain rows where rows: "save_predictions_to_db (\<lambda>k. False) [1, 2] None = Some rows"
    "length rows = length [1, 2 :: int]"
    "\<forall>i < length [1, 2 :: int].
          row_node_id (rows ! i) = int i \<and> row_prediction (rows ! i) = [1, 2] ! i \<and>
          row_confidence (rows ! i) = 8 / 10"
    using db_rows_index_and_constant_confidence [of "\<lambda>k. False" "[1, 2]" None] nr by blast
  have l2: "length rows = 2" using rows(2) by simp
  then obtain a b where ab: "rows = [a, b]"
    by (cases rows; cases "tl rows") auto
  have "row_node_id a = 0 \<and> row_confidence a = 8 / 10"
    using rows(3) [rule_format, of 0] ab by simp
  moreover have "row_node_id b = 1 \<and> row_confidence b = 8 / 10"
    using rows(3) [rule_format, of 1] ab by simp
  ultimately have "map row_node_id rows = [0, 1] \<and> map row_confidence rows = [8 / 10, 8 / 10]"
    using ab by simp
  then show ?thesis using ev rows(1) by (simp add: node_ids_def)
qed

end
